theory Spec2Isabelle
  imports Main
begin

section \<open>Shared data model (frames.ts)\<close>

text \<open>
  The four lifecycle events of \<^verbatim>\<open>types.LifecycleEvent\<close>. The error classes the source
  distinguishes with \<^verbatim>\<open>instanceof\<close>: \<^verbatim>\<open>NavigationAbortedError\<close> (declared in frames.ts, carrying
  the optional documentId), \<^verbatim>\<open>TimeoutError\<close>, and every other \<^verbatim>\<open>Error\<close>, each with its message.
\<close>

datatype LifecycleEvent = commit | domcontentloaded | load | networkidle

datatype error =
    NavigationAbortedError "string option" string
  | TimeoutError string
  | Error string

text \<open>
  A \<^verbatim>\<open>network.Request\<close> as far as frames.ts reads it: its object identity, its
  \<^verbatim>\<open>_documentId\<close>, its \<^verbatim>\<open>_isFavicon\<close> flag and the frame object \<^verbatim>\<open>request.frame()\<close> returns.
\<close>

record Request =
  requestRef :: nat
  request_documentId :: "string option"
  isFavicon :: bool
  request_frame :: nat

record DocumentInfo =
  documentId :: "string option"
  request :: "Request option"


record NavigationEvent =
  url :: string
  name :: string
  newDocument :: "DocumentInfo option"
  error :: "error option"
  isPublic :: bool

text \<open>JavaScript truthiness of an optional string: defined and not empty.\<close>

definition truthy :: "string option \<Rightarrow> bool" where
  "truthy s = (case s of None \<Rightarrow> False | Some v \<Rightarrow> v \<noteq> [])"

text \<open>
  The state of an awaited promise once the surrounding operation is over: resolved with a
  value, rejected with an error, or never settled.
\<close>

datatype 'a promise = Resolved 'a | Rejected error | Pending


section \<open>Navigation orchestration: \<^verbatim>\<open>Frame.goto\<close> and \<^verbatim>\<open>Frame.gotoImpl\<close>\<close>















section \<open>The frame tree: \<^verbatim>\<open>Frame\<close> and \<^verbatim>\<open>FrameManager\<close>\<close>

text \<open>
  A \<^verbatim>\<open>Frame\<close> object with the fields the manager reads and writes. \<open>frameRef\<close> is the
  identity of the object (JavaScript compares frames by reference); \<open>frameId\<close> is \<^verbatim>\<open>_id\<close>.
  The idle timer is \<open>NoTimer\<close> when \<^verbatim>\<open>_networkIdleTimer\<close> is undefined, \<open>Armed\<close> while the
  500ms timeout is pending, and \<open>Fired\<close> once its callback has run (the handle stays set).
  A context slot holds the reference of its \<^verbatim>\<open>ManualPromise\<close> and the active context, if any.
  The parent owns its children: a frame and its \<^verbatim>\<open>_childFrames\<close> form a \<open>FrameNode\<close>, and
  \<^verbatim>\<open>_parentFrame\<close> is the node above.
\<close>

datatype World = main | utility

datatype timer = NoTimer | Armed | Fired

record ContextData =
  contextPromise :: nat
  activeContext :: "nat option"

record Frame =
  frameRef :: nat
  frameId :: string
  firedLifecycleEvents :: "LifecycleEvent set"
  firedNetworkIdleSelf :: bool
  currentDocument :: DocumentInfo
  pendingDocument :: "DocumentInfo option"
  frameUrl :: string
  contextData :: "World \<Rightarrow> ContextData"
  frameName :: string
  inflightRequests :: "Request list"
  networkIdleTimer :: timer
  detachedScopeClosed :: bool
  redirectedNavigations :: "string set"

datatype FrameNode = FrameNode (frameOf: Frame) (childFrames: "FrameNode list")

text \<open>What a context promise is resolved with (\<^verbatim>\<open>ContextData.contextPromise\<close>).\<close>

datatype contextOrReason = ExecutionContext nat | destroyedReason string

datatype emitted =
    PageFrameAttached nat
  | PageFrameDetached nat
  | PageFrameNavigatedToNewDocument nat
  | InternalNavigation nat NavigationEvent

text \<open>
  The manager. \<open>frames\<close> is \<^verbatim>\<open>_frames\<close> (frame id to frame object), \<open>mainFrame\<close> the tree under
  \<^verbatim>\<open>_mainFrame\<close>. \<open>promises\<close> is the store of the \<^verbatim>\<open>ManualPromise\<close> objects of the context
  slots (\<open>None\<close>: still pending), shared with whoever awaits them; \<open>contextDestroyedCalls\<close>
  lists the \<^verbatim>\<open>contextDestroyed(reason)\<close> calls made on execution contexts; \<open>nextRef\<close> is the
  next unused object reference; \<open>emitted\<close> lists the page events and the internal
  navigation events fired so far. The signal barriers only count navigations and never
  touch a frame, and the promises of \<^verbatim>\<open>raceAgainstEvaluationStallingEvents\<close> belong to
  evaluations in flight; neither is part of this state.
\<close>

record FrameManager =
  frames :: "string \<rightharpoonup> nat"
  mainFrame :: "FrameNode option"
  webSockets :: "string set"
  promises :: "nat \<Rightarrow> contextOrReason option"
  contextDestroyedCalls :: "(nat \<times> string) list"
  nextRef :: nat
  pageClosed :: bool
  emitted :: "emitted list"

definition kDummyFrameId :: string where
  "kDummyFrameId = ''<dummy>''"

subsection \<open>Walking and updating the tree\<close>

fun nodes :: "FrameNode \<Rightarrow> FrameNode list" where
  "nodes (FrameNode f cs) = FrameNode f cs # concat (map nodes cs)"

definition findNode :: "nat \<Rightarrow> FrameNode \<Rightarrow> FrameNode option" where
  "findNode r t = find (\<lambda>n. frameRef (frameOf n) = r) (nodes t)"

fun updateFrame :: "nat \<Rightarrow> (Frame \<Rightarrow> Frame) \<Rightarrow> FrameNode \<Rightarrow> FrameNode" where
  "updateFrame r g (FrameNode f cs) =
     FrameNode (if frameRef f = r then g f else f) (map (updateFrame r g) cs)"

fun addChild :: "nat \<Rightarrow> FrameNode \<Rightarrow> FrameNode \<Rightarrow> FrameNode" where
  "addChild p c (FrameNode f cs) =
     FrameNode f (map (addChild p c) cs @ (if frameRef f = p then [c] else []))"

fun clearChildren :: "nat \<Rightarrow> FrameNode \<Rightarrow> FrameNode" where
  "clearChildren r (FrameNode f cs) =
     FrameNode f (if frameRef f = r then [] else map (clearChildren r) cs)"

fun removeNode :: "nat \<Rightarrow> FrameNode \<Rightarrow> FrameNode" where
  "removeNode r (FrameNode f cs) =
     FrameNode f (map (removeNode r) (filter (\<lambda>c. frameRef (frameOf c) \<noteq> r) cs))"

text \<open>\<^verbatim>\<open>FrameManager.frame(frameId)\<close>: the frame object registered under an id.\<close>

definition frameNode :: "FrameManager \<Rightarrow> string \<Rightarrow> FrameNode option" where
  "frameNode s fid =
     (case frames s fid of
        None \<Rightarrow> None
      | Some r \<Rightarrow> (case mainFrame s of None \<Rightarrow> None | Some t \<Rightarrow> findNode r t))"

definition frame :: "FrameManager \<Rightarrow> string \<Rightarrow> Frame option" where
  "frame s fid = map_option frameOf (frameNode s fid)"

definition frameByRef :: "FrameManager \<Rightarrow> nat \<Rightarrow> Frame option" where
  "frameByRef s r = (case mainFrame s of None \<Rightarrow> None | Some t \<Rightarrow> map_option frameOf (findNode r t))"

definition onTree :: "(FrameNode \<Rightarrow> FrameNode) \<Rightarrow> FrameManager \<Rightarrow> FrameManager" where
  "onTree g s = s\<lparr>mainFrame := map_option g (mainFrame s)\<rparr>"

definition emit :: "emitted \<Rightarrow> FrameManager \<Rightarrow> FrameManager" where
  "emit e s = s\<lparr>emitted := emitted s @ [e]\<rparr>"

subsection \<open>Lifecycle and network idle (\<^verbatim>\<open>Frame\<close> methods)\<close>

definition stopNetworkIdleTimer :: "Frame \<Rightarrow> Frame" where
  "stopNetworkIdleTimer f = f\<lparr>networkIdleTimer := NoTimer, firedNetworkIdleSelf := False\<rparr>"

text \<open>\<^verbatim>\<open>_startNetworkIdleTimer\<close>; its \<^verbatim>\<open>assert(!this._networkIdleTimer)\<close> throws when a handle is set.\<close>

definition startNetworkIdleTimer :: "Frame \<Rightarrow> error + Frame" where
  "startNetworkIdleTimer f =
     (if networkIdleTimer f \<noteq> NoTimer then Inl (Error ''Assertion error'')
      else if networkidle \<in> firedLifecycleEvents f \<or> detachedScopeClosed f then Inr f
      else Inr (f\<lparr>networkIdleTimer := Armed\<rparr>))"

fun recalculateNetworkIdle :: "nat option \<Rightarrow> FrameNode \<Rightarrow> FrameNode" where
  "recalculateNetworkIdle frameThatAllowsRemovingNetworkIdle (FrameNode f cs) =
     (let cs' = map (recalculateNetworkIdle frameThatAllowsRemovingNetworkIdle) cs;
          isNetworkIdle = (firedNetworkIdleSelf f
             \<and> list_all (\<lambda>child. networkidle \<in> firedLifecycleEvents (frameOf child)) cs');
          fired1 = (if isNetworkIdle \<and> networkidle \<notin> firedLifecycleEvents f
                    then insert networkidle (firedLifecycleEvents f) else firedLifecycleEvents f);
          fired2 = (if frameThatAllowsRemovingNetworkIdle \<noteq> Some (frameRef f)
                       \<and> networkidle \<in> fired1 \<and> \<not> isNetworkIdle
                    then fired1 - {networkidle} else fired1)
      in FrameNode (f\<lparr>firedLifecycleEvents := fired2\<rparr>) cs')"

text \<open>
  \<^verbatim>\<open>_onLifecycleEvent(event)\<close> on the frame \<open>r\<close>, with the recalculation it triggers from the
  main frame (the root of the tree).
\<close>

definition onLifecycleEvent :: "nat \<Rightarrow> LifecycleEvent \<Rightarrow> FrameNode \<Rightarrow> FrameNode" where
  "onLifecycleEvent r event t =
     (case findNode r t of
        None \<Rightarrow> t
      | Some n \<Rightarrow>
          if event \<in> firedLifecycleEvents (frameOf n) then t
          else recalculateNetworkIdle None
                 (updateFrame r (\<lambda>f. f\<lparr>firedLifecycleEvents := insert event (firedLifecycleEvents f)\<rparr>) t))"

text \<open>
  The part of \<^verbatim>\<open>_onClearLifecycle\<close> that touches the frame itself: clear the fired events,
  keep only the request of the current document in flight, stop the idle timer and start
  it again when nothing is in flight.
\<close>

definition clearLifecycleSelf :: "Frame \<Rightarrow> error + Frame" where
  "clearLifecycleSelf f =
     (let f1 = f\<lparr>firedLifecycleEvents := {},
                 inflightRequests := filter (\<lambda>q. Some q = request (currentDocument f)) (inflightRequests f)\<rparr>;
          f2 = stopNetworkIdleTimer f1
      in if inflightRequests f2 = [] then startNetworkIdleTimer f2 else Inr f2)"

text \<open>
  \<^verbatim>\<open>_onClearLifecycle\<close> on the frame \<open>r\<close>: the local part, then the recalculation from the
  main frame that exempts \<open>r\<close>, then \<^verbatim>\<open>_onLifecycleEvent('commit')\<close>. Were the assertion of
  the timer to throw, nothing after it would run.
\<close>

definition onClearLifecycle :: "nat \<Rightarrow> FrameNode \<Rightarrow> error + FrameNode" where
  "onClearLifecycle r t =
     (case findNode r t of
        None \<Rightarrow> Inr t
      | Some n \<Rightarrow>
          (case clearLifecycleSelf (frameOf n) of
             Inl e \<Rightarrow> Inl e
           | Inr f' \<Rightarrow>
               Inr (onLifecycleEvent r commit
                      (recalculateNetworkIdle (Some r) (updateFrame r (\<lambda>_. f') t)))))"

definition setPendingDocument :: "DocumentInfo option \<Rightarrow> Frame \<Rightarrow> Frame" where
  "setPendingDocument documentInfo f = f\<lparr>pendingDocument := documentInfo\<rparr>"

subsection \<open>Context slots\<close>

text \<open>
  Modelled from the spec: \<^verbatim>\<open>ManualPromise.resolve\<close> (manualPromise.ts is not among the sources).
  A context slot's future settles once: resolving a promise that is already settled
  changes nothing.
\<close>

definition resolvePromise :: "nat \<Rightarrow> contextOrReason \<Rightarrow> FrameManager \<Rightarrow> FrameManager" where
  "resolvePromise p v s =
     (if promises s p = None then s\<lparr>promises := (promises s)(p := Some v)\<rparr> else s)"

definition contextDestroyed :: "nat \<Rightarrow> string \<Rightarrow> FrameManager \<Rightarrow> FrameManager" where
  "contextDestroyed c reason s = s\<lparr>contextDestroyedCalls := contextDestroyedCalls s @ [(c, reason)]\<rparr>"

text \<open>
  \<^verbatim>\<open>Frame._context(world)\<close>: what a consumer awaiting the context of a frame receives, read
  from the promise store.
\<close>

definition contextOf :: "FrameManager \<Rightarrow> Frame \<Rightarrow> World \<Rightarrow> nat promise" where
  "contextOf s f world =
     (case promises s (contextPromise (contextData f world)) of
        None \<Rightarrow> Pending
      | Some (ExecutionContext c) \<Rightarrow> Resolved c
      | Some (destroyedReason reason) \<Rightarrow> Rejected (Error reason))"

text \<open>\<^verbatim>\<open>_setContext(world, context)\<close> on the frame \<open>r\<close>; a null context allocates a new promise.\<close>

definition setContext :: "nat \<Rightarrow> World \<Rightarrow> nat option \<Rightarrow> FrameManager \<Rightarrow> FrameManager" where
  "setContext r world c s =
     (case frameByRef s r of
        None \<Rightarrow> s
      | Some f \<Rightarrow>
          (case c of
             Some c' \<Rightarrow>
               resolvePromise (contextPromise (contextData f world)) (ExecutionContext c')
                 (onTree (updateFrame r (\<lambda>g. g\<lparr>contextData :=
                      (contextData g)(world := (contextData g world)\<lparr>activeContext := Some c'\<rparr>)\<rparr>)) s)
           | None \<Rightarrow>
               (onTree (updateFrame r (\<lambda>g. g\<lparr>contextData :=
                      (contextData g)(world := \<lparr>contextPromise = nextRef s, activeContext = None\<rparr>)\<rparr>)) s)
                 \<lparr>nextRef := Suc (nextRef s)\<rparr>))"

definition kContextDestroyed :: string where
  "kContextDestroyed = ''Execution context was destroyed, most likely because of a navigation''"

definition contextCreated :: "nat \<Rightarrow> World \<Rightarrow> nat \<Rightarrow> FrameManager \<Rightarrow> FrameManager" where
  "contextCreated r world c s =
     (case frameByRef s r of
        None \<Rightarrow> s
      | Some f \<Rightarrow>
          setContext r world (Some c)
            (case activeContext (contextData f world) of
               Some old \<Rightarrow> setContext r world None (contextDestroyed old kContextDestroyed s)
             | None \<Rightarrow> s))"

definition frameContextDestroyed :: "nat \<Rightarrow> nat \<Rightarrow> FrameManager \<Rightarrow> FrameManager" where
  "frameContextDestroyed r c s =
     (case frameByRef s r of
        None \<Rightarrow> s
      | Some f \<Rightarrow>
          if detachedScopeClosed f then s
          else fold (\<lambda>world s'. if activeContext (contextData f world) = Some c
                                  then setContext r world None s' else s')
                 [main, utility] (contextDestroyed c kContextDestroyed s))"

subsection \<open>Attaching and detaching frames\<close>

text \<open>
  \<^verbatim>\<open>new Frame(page, id, parentFrame)\<close> for the object reference \<open>n\<close>. The constructor creates
  a promise for each world (\<open>n + 1\<close>, \<open>n + 2\<close>) and \<^verbatim>\<open>_setContext(world, null)\<close> replaces each
  with a new one (\<open>n + 3\<close>, \<open>n + 4\<close>); it fires \<open>commit\<close> and starts the idle timer unless the
  id is the dummy one.
\<close>

definition newFrame :: "nat \<Rightarrow> string \<Rightarrow> Frame" where
  "newFrame n fid =
     (let f0 = \<lparr>frameRef = n, frameId = fid, firedLifecycleEvents = {commit},
                firedNetworkIdleSelf = False,
                currentDocument = \<lparr>documentId = None, request = None\<rparr>,
                pendingDocument = None, frameUrl = [],
                contextData = (\<lambda>world. \<lparr>contextPromise = (case world of main \<Rightarrow> n + 3 | utility \<Rightarrow> n + 4),
                                          activeContext = None\<rparr>),
                frameName = [], inflightRequests = [], networkIdleTimer = NoTimer,
                detachedScopeClosed = False, redirectedNavigations = {}\<rparr>
      in if fid \<noteq> kDummyFrameId
         then (case startNetworkIdleTimer f0 of Inr f \<Rightarrow> f | Inl _ \<Rightarrow> f0)
         else f0)"

definition frameAttached :: "FrameManager \<Rightarrow> string \<Rightarrow> string option \<Rightarrow> FrameManager \<times> error option" where
  "frameAttached s fid parentFrameId =
     (case (if truthy parentFrameId then frameNode s (the parentFrameId) else None) of
        None \<Rightarrow>
          (case mainFrame s of
             Some t \<Rightarrow>
               (s\<lparr>frames := ((frames s)(frameId (frameOf t) := None))(fid \<mapsto> frameRef (frameOf t)),
                  mainFrame := Some (FrameNode ((frameOf t)\<lparr>frameId := fid\<rparr>) (childFrames t))\<rparr>, None)
           | None \<Rightarrow>
               if frames s fid \<noteq> None then (s, Some (Error ''Assertion error''))
               else (s\<lparr>frames := (frames s)(fid \<mapsto> nextRef s),
                       mainFrame := Some (FrameNode (newFrame (nextRef s) fid) []),
                       nextRef := nextRef s + 5\<rparr>, None))
      | Some parentFrame \<Rightarrow>
          if frames s fid \<noteq> None then (s, Some (Error ''Assertion error''))
          else (emit (PageFrameAttached (nextRef s))
                  (s\<lparr>frames := (frames s)(fid \<mapsto> nextRef s),
                     mainFrame := map_option (addChild (frameRef (frameOf parentFrame))
                                    (FrameNode (newFrame (nextRef s) fid) [])) (mainFrame s),
                     nextRef := nextRef s + 5\<rparr>), None))"

definition createDummyMainFrameIfNeeded :: "FrameManager \<Rightarrow> FrameManager \<times> error option" where
  "createDummyMainFrameIfNeeded s =
     (if mainFrame s = None then frameAttached s kDummyFrameId None else (s, None))"

text \<open>
  What \<^verbatim>\<open>_onDetached\<close> does outside the frame: each context slot, main then utility, has its
  active context destroyed and its promise resolved with the destruction reason.
\<close>

definition kFrameDetached :: string where
  "kFrameDetached = ''Frame was detached''"

definition onDetachedContexts :: "Frame \<Rightarrow> FrameManager \<Rightarrow> FrameManager" where
  "onDetachedContexts f s =
     fold (\<lambda>world s'.
             resolvePromise (contextPromise (contextData f world)) (destroyedReason kFrameDetached)
               (case activeContext (contextData f world) of
                  Some c \<Rightarrow> contextDestroyed c kFrameDetached s'
                | None \<Rightarrow> s'))
          [main, utility] s"

text \<open>What \<^verbatim>\<open>_onDetached\<close> does to the frame object itself (its parent link is the tree's).\<close>

definition onDetachedSelf :: "Frame \<Rightarrow> Frame" where
  "onDetachedSelf f = (stopNetworkIdleTimer f)\<lparr>detachedScopeClosed := True\<rparr>"

text \<open>
  \<^verbatim>\<open>_removeFramesRecursively(frame)\<close> as it acts on the manager: the children first
  (\<^verbatim>\<open>removeChildFramesRecursively\<close>, over the snapshot \<^verbatim>\<open>frame.childFrames()\<close>), then the frame's
  own \<^verbatim>\<open>_onDetached\<close>, its removal from \<^verbatim>\<open>_frames\<close> under its id, and the page event unless
  the page is closed. The tree itself is cut by the caller.
\<close>

fun removeFramesRecursively :: "FrameNode \<Rightarrow> FrameManager \<Rightarrow> FrameManager" where
  "removeFramesRecursively (FrameNode f cs) s =
     (let s1 = fold removeFramesRecursively cs s;
          s2 = onDetachedContexts f s1;
          s3 = s2\<lparr>frames := (frames s2)(frameId f := None)\<rparr>
      in if pageClosed s3 then s3 else emit (PageFrameDetached (frameRef f)) s3)"

definition removeChildFramesRecursively :: "FrameNode \<Rightarrow> FrameManager \<Rightarrow> FrameManager" where
  "removeChildFramesRecursively n s = fold removeFramesRecursively (childFrames n) s"

text \<open>
  Cutting the detached frame out of the tree: a child leaves its parent's \<^verbatim>\<open>_childFrames\<close>; the
  main frame has no parent and stays \<^verbatim>\<open>_mainFrame\<close>, detached and without children.
\<close>

definition cutNode :: "nat \<Rightarrow> FrameNode \<Rightarrow> FrameNode" where
  "cutNode r t =
     (if frameRef (frameOf t) = r then FrameNode (onDetachedSelf (frameOf t)) []
      else removeNode r t)"

definition frameDetached :: "FrameManager \<Rightarrow> string \<Rightarrow> FrameManager" where
  "frameDetached s fid =
     (case frameNode s fid of
        None \<Rightarrow> s
      | Some n \<Rightarrow>
          onTree (\<lambda>t. recalculateNetworkIdle None (cutNode (frameRef (frameOf n)) t))
            (removeFramesRecursively n s))"

subsection \<open>Navigation notifications\<close>

text \<open>
  \<^verbatim>\<open>frameRequestedNavigation(frameId, documentId?)\<close>. The guard returns early only when the
  pending document's id is the very id passed in; otherwise the pending document is
  replaced, its request looked up among the requests in flight (in insertion order) when
  the id is truthy.
\<close>

definition frameRequestedNavigation :: "FrameManager \<Rightarrow> string \<Rightarrow> string option \<Rightarrow> FrameManager" where
  "frameRequestedNavigation s fid documentId' =
     (case frame s fid of
        None \<Rightarrow> s
      | Some f \<Rightarrow>
          if (case pendingDocument f of None \<Rightarrow> False | Some p \<Rightarrow> documentId p = documentId')
          then s
          else
            let request' = (if truthy documentId'
                            then find (\<lambda>q. request_documentId q = documentId') (inflightRequests f)
                            else None)
            in onTree (updateFrame (frameRef f)
                 (setPendingDocument (Some \<lparr>documentId = documentId', request = request'\<rparr>))) s)"

text \<open>\<^verbatim>\<open>clearWebSockets(frame)\<close>: only a frame without a parent clears them.\<close>

definition clearWebSockets :: "nat \<Rightarrow> FrameManager \<Rightarrow> FrameManager" where
  "clearWebSockets r s =
     (case mainFrame s of
        None \<Rightarrow> s
      | Some t \<Rightarrow> if frameRef (frameOf t) \<noteq> r then s else s\<lparr>webSockets := {}\<rparr>)"

text \<open>
  Lines 211-234 of \<^verbatim>\<open>frameCommittedNewDocumentNavigation\<close>: the new current document, the
  pending document cleared, and the pending document to restore at the end (\<open>keepPending\<close>).
\<close>

definition commitDocument :: "string \<Rightarrow> Frame \<Rightarrow> Frame \<times> DocumentInfo option" where
  "commitDocument documentId' f =
     (case pendingDocument f of
        Some p0 \<Rightarrow>
          (let p = (if documentId p0 = None then p0\<lparr>documentId := Some documentId'\<rparr> else p0)
           in if documentId p = Some documentId'
              then (setPendingDocument None (f\<lparr>currentDocument := p\<rparr>), None)
              else (setPendingDocument None
                      (f\<lparr>currentDocument := \<lparr>documentId = Some documentId', request = None\<rparr>\<rparr>), Some p))
      | None \<Rightarrow> (f\<lparr>currentDocument := \<lparr>documentId = Some documentId', request = None\<rparr>\<rparr>, None))"

definition clearLifecycle :: "nat \<Rightarrow> FrameManager \<Rightarrow> FrameManager \<times> error option" where
  "clearLifecycle r s =
     (case mainFrame s of
        None \<Rightarrow> (s, None)
      | Some t \<Rightarrow>
          (case onClearLifecycle r t of
             Inl e \<Rightarrow> (s, Some e)
           | Inr t' \<Rightarrow> (s\<lparr>mainFrame := Some t'\<rparr>, None)))"

text \<open>
  \<^verbatim>\<open>frameCommittedNewDocumentNavigation\<close>. A frame id that is not registered makes
  \<^verbatim>\<open>this._frames.get(frameId)!\<close> undefined and the first use of it throws.
\<close>

definition frameCommittedNewDocumentNavigation ::
  "FrameManager \<Rightarrow> string \<Rightarrow> string \<Rightarrow> string \<Rightarrow> string \<Rightarrow> bool \<Rightarrow> FrameManager \<times> error option" where
  "frameCommittedNewDocumentNavigation s fid url' name' documentId' initial =
     (case frameNode s fid of
        None \<Rightarrow> (s, Some (Error ''TypeError''))
      | Some n \<Rightarrow>
          (let r = frameRef (frameOf n);
               s1 = onTree (clearChildren r) (removeChildFramesRecursively n s);
               s2 = clearWebSockets r s1;
               committed = commitDocument documentId' ((frameOf n)\<lparr>frameUrl := url', frameName := name'\<rparr>);
               keepPending = snd committed;
               s3 = onTree (updateFrame r (\<lambda>_. fst committed)) s2
           in case clearLifecycle r s3 of
                (s4, Some e) \<Rightarrow> (s4, Some e)
              | (s4, None) \<Rightarrow>
                  (let s5 = emit (InternalNavigation r
                                   \<lparr>url = url', name = name',
                                    newDocument = Some (currentDocument (fst committed)),
                                    error = None, isPublic = True\<rparr>) s4;
                       s6 = (if \<not> initial then emit (PageFrameNavigatedToNewDocument r) s5 else s5)
                   in (onTree (updateFrame r (setPendingDocument keepPending)) s6, None))))"

definition frameCommittedSameDocumentNavigation :: "FrameManager \<Rightarrow> string \<Rightarrow> string \<Rightarrow> FrameManager" where
  "frameCommittedSameDocumentNavigation s fid url' =
     (case frame s fid of
        None \<Rightarrow> s
      | Some f \<Rightarrow>
          (let r = frameRef f;
               s1 = (if (case pendingDocument f of
                           Some p \<Rightarrow> documentId p = None \<and> request p = None
                         | None \<Rightarrow> False)
                     then onTree (updateFrame r (setPendingDocument None)) s else s);
               s2 = onTree (updateFrame r (\<lambda>g. g\<lparr>frameUrl := url'\<rparr>)) s1
           in emit (InternalNavigation r
                      \<lparr>url = url', name = frameName f, newDocument = None, error = None,
                       isPublic = True\<rparr>) s2))"

definition frameAbortedNavigation ::
  "FrameManager \<Rightarrow> string \<Rightarrow> string \<Rightarrow> string option \<Rightarrow> FrameManager" where
  "frameAbortedNavigation s fid errorText documentId' =
     (case frame s fid of
        None \<Rightarrow> s
      | Some f \<Rightarrow>
          (case pendingDocument f of
             None \<Rightarrow> s
           | Some p \<Rightarrow>
               if documentId' \<noteq> None \<and> documentId p \<noteq> documentId' then s
               else emit (InternalNavigation (frameRef f)
                            \<lparr>url = frameUrl f, name = frameName f, newDocument = Some p,
                             error = Some (NavigationAbortedError documentId' errorText),
                             isPublic = (\<not> (truthy documentId'
                                            \<and> the documentId' \<in> redirectedNavigations f))\<rparr>)
                      (onTree (updateFrame (frameRef f) (setPendingDocument None)) s)))"

definition frameLifecycleEvent :: "FrameManager \<Rightarrow> string \<Rightarrow> LifecycleEvent \<Rightarrow> FrameManager" where
  "frameLifecycleEvent s fid event =
     (case frame s fid of
        None \<Rightarrow> s
      | Some f \<Rightarrow> onTree (onLifecycleEvent (frameRef f) event) s)"

subsection \<open>Requests in flight and the idle timer\<close>

text \<open>
  \<^verbatim>\<open>_inflightRequests\<close> is a JavaScript Set: a list in insertion order, without repetition.
  A request names its frame object; a request of a frame that has left the tree acts on
  that detached object only and is not followed here.
\<close>

definition inflightRequestStarted :: "Request \<Rightarrow> Frame \<Rightarrow> Frame" where
  "inflightRequestStarted q f =
     (if isFavicon q then f
      else
        let f1 = f\<lparr>inflightRequests :=
                     (if q \<in> set (inflightRequests f) then inflightRequests f
                      else inflightRequests f @ [q])\<rparr>
        in if length (inflightRequests f1) = 1 then stopNetworkIdleTimer f1 else f1)"

text \<open>
  \<^verbatim>\<open>_inflightRequestFinished\<close>: the frame after the call and the error thrown, if the
  assertion of the timer fails (the request has been deleted by then).
\<close>

definition inflightRequestFinished :: "Request \<Rightarrow> Frame \<Rightarrow> Frame \<times> error option" where
  "inflightRequestFinished q f =
     (if isFavicon q then (f, None)
      else if q \<notin> set (inflightRequests f) then (f, None)
      else
        let f1 = f\<lparr>inflightRequests := removeAll q (inflightRequests f)\<rparr>
        in if inflightRequests f1 = []
           then (case startNetworkIdleTimer f1 of Inl e \<Rightarrow> (f1, Some e) | Inr f2 \<Rightarrow> (f2, None))
           else (f1, None))"

definition requestStarted :: "FrameManager \<Rightarrow> Request \<Rightarrow> FrameManager" where
  "requestStarted s q =
     (case frameByRef s (request_frame q) of
        None \<Rightarrow> s
      | Some f \<Rightarrow>
          (let s1 = onTree (updateFrame (frameRef f) (inflightRequestStarted q)) s
           in if truthy (request_documentId q)
              then onTree (updateFrame (frameRef f)
                     (setPendingDocument (Some \<lparr>documentId = request_documentId q, request = Some q\<rparr>))) s1
              else s1))"

definition reportRequestFinished :: "FrameManager \<Rightarrow> Request \<Rightarrow> FrameManager \<times> error option" where
  "reportRequestFinished s q =
     (case frameByRef s (request_frame q) of
        None \<Rightarrow> (s, None)
      | Some f \<Rightarrow>
          (onTree (updateFrame (frameRef f) (\<lambda>_. fst (inflightRequestFinished q f))) s,
           snd (inflightRequestFinished q f)))"

text \<open>
  \<^verbatim>\<open>requestFailed(request, canceled)\<close>; \<open>errorText\<close> is the text of the failure, with the
  suffix of a canceled request already appended.
\<close>

definition requestFailed :: "FrameManager \<Rightarrow> Request \<Rightarrow> string \<Rightarrow> FrameManager \<times> error option" where
  "requestFailed s q errorText =
     (case frameByRef s (request_frame q) of
        None \<Rightarrow> (s, None)
      | Some f \<Rightarrow>
          (let f1 = fst (inflightRequestFinished q f);
               s1 = onTree (updateFrame (frameRef f) (\<lambda>_. f1)) s
           in case snd (inflightRequestFinished q f) of
                Some e \<Rightarrow> (s1, Some e)
              | None \<Rightarrow>
                  (case pendingDocument f1 of
                     Some p \<Rightarrow>
                       if request p = Some q
                       then (frameAbortedNavigation s1 (frameId f1) errorText (documentId p), None)
                       else (s1, None)
                   | None \<Rightarrow> (s1, None))))"

text \<open>The callback of the idle timer of the frame \<open>r\<close>, which runs once, 500ms after arming.\<close>

definition networkIdleTimerFired :: "FrameManager \<Rightarrow> nat \<Rightarrow> FrameManager" where
  "networkIdleTimerFired s r =
     (case frameByRef s r of
        None \<Rightarrow> s
      | Some f \<Rightarrow>
          if networkIdleTimer f \<noteq> Armed then s
          else onTree (\<lambda>t. recalculateNetworkIdle None
                 (updateFrame r (\<lambda>g. g\<lparr>firedNetworkIdleSelf := True, networkIdleTimer := Fired\<rparr>) t)) s)"

text \<open>
  \<^verbatim>\<open>FrameManager.dispose\<close>: every frame registered in \<^verbatim>\<open>_frames\<close> has its idle timer stopped.
\<close>

fun mapFrames :: "(Frame \<Rightarrow> Frame) \<Rightarrow> FrameNode \<Rightarrow> FrameNode" where
  "mapFrames g (FrameNode f cs) = FrameNode (g f) (map (mapFrames g) cs)"

definition dispose :: "FrameManager \<Rightarrow> FrameManager" where
  "dispose s =
     onTree (mapFrames (\<lambda>f. if frameRef f \<in> ran (frames s) then stopNetworkIdleTimer f else f)) s"

subsection \<open>Reachable states of the manager\<close>

definition initialManager :: FrameManager where
  "initialManager =
     \<lparr>frames = Map.empty, mainFrame = None, webSockets = {}, promises = (\<lambda>_. None),
      contextDestroyedCalls = [], nextRef = 0, pageClosed = False, emitted = []\<rparr>"

text \<open>
  The states the manager goes through: every notification of the transport, every timer
  that fires, every context created or destroyed, the console tag of \<^verbatim>\<open>setContent\<close> (which
  clears the lifecycle of its frame), the disposal of the manager, the page closing, web
  sockets and redirected navigations being registered and forgotten. When a call throws,
  the state it leaves behind is reachable too. A frame object that has left the tree can
  still have its lifecycle cleared by a late console tag; on the tree that amounts to the
  two recalculations of \<^verbatim>\<open>_onClearLifecycle\<close>, which the rule \<open>r_recalculated\<close> covers.
\<close>

inductive reachable :: "FrameManager \<Rightarrow> bool" where
  r_init: "reachable initialManager"
| r_attached: "reachable s \<Longrightarrow> reachable (fst (frameAttached s fid parentFrameId))"
| r_dummy: "reachable s \<Longrightarrow> reachable (fst (createDummyMainFrameIfNeeded s))"
| r_detached: "reachable s \<Longrightarrow> reachable (frameDetached s fid)"
| r_requested: "reachable s \<Longrightarrow> reachable (frameRequestedNavigation s fid d)"
| r_committed: "reachable s \<Longrightarrow>
     reachable (fst (frameCommittedNewDocumentNavigation s fid u nm d initial))"
| r_same_document: "reachable s \<Longrightarrow> reachable (frameCommittedSameDocumentNavigation s fid u)"
| r_aborted: "reachable s \<Longrightarrow> reachable (frameAbortedNavigation s fid errorText d)"
| r_lifecycle: "reachable s \<Longrightarrow> event \<noteq> networkidle \<Longrightarrow> reachable (frameLifecycleEvent s fid event)"
| r_request_started: "reachable s \<Longrightarrow> reachable (requestStarted s q)"
| r_request_finished: "reachable s \<Longrightarrow> reachable (fst (reportRequestFinished s q))"
| r_request_failed: "reachable s \<Longrightarrow> reachable (fst (requestFailed s q errorText))"
| r_timer: "reachable s \<Longrightarrow> reachable (networkIdleTimerFired s r)"
| r_set_content: "reachable s \<Longrightarrow> reachable (fst (clearLifecycle r s))"
| r_context_created: "reachable s \<Longrightarrow> reachable (contextCreated r world c s)"
| r_context_destroyed: "reachable s \<Longrightarrow> reachable (frameContextDestroyed r c s)"
| r_recalculated: "reachable s \<Longrightarrow> reachable (onTree (recalculateNetworkIdle a) s)"
| r_disposed: "reachable s \<Longrightarrow> reachable (dispose s)"
| r_page_closed: "reachable s \<Longrightarrow> reachable (s\<lparr>pageClosed := True\<rparr>)"
| r_web_socket: "reachable s \<Longrightarrow> reachable (s\<lparr>webSockets := ws\<rparr>)"
| r_redirect: "reachable s \<Longrightarrow>
     reachable (onTree (updateFrame r (\<lambda>g. g\<lparr>redirectedNavigations := ds\<rparr>)) s)"

text \<open>The live frames: \<^verbatim>\<open>FrameManager.frames()\<close>, the tree under the main frame in pre-order.\<close>

definition liveFrames :: "FrameManager \<Rightarrow> Frame list" where
  "liveFrames s = (case mainFrame s of None \<Rightarrow> [] | Some t \<Rightarrow> map frameOf (nodes t))"

text \<open>\<^verbatim>\<open>_waitForLoadState\<close> returns without waiting exactly when the state has fired.\<close>

definition waitForLoadStateImmediate :: "Frame \<Rightarrow> LifecycleEvent \<Rightarrow> bool" where
  "waitForLoadStateImmediate f state = (state \<in> firedLifecycleEvents f)"

section \<open>Detaching, frame by frame\<close>

text \<open>
  Lines 342-345 of \<^verbatim>\<open>_removeFramesRecursively\<close>, what the removal does for one frame once its
  children are gone: \<^verbatim>\<open>_onDetached\<close> on its context slots, the deletion of its id from
  \<^verbatim>\<open>_frames\<close>, and the page event unless the page is closed. \<open>postorder\<close> lists a subtree
  children first, each child's subtree before the next child, the root last.
\<close>

definition detachFrame :: "Frame \<Rightarrow> FrameManager \<Rightarrow> FrameManager" where
  "detachFrame f s =
     (let s2 = onDetachedContexts f s;
          s3 = s2\<lparr>frames := (frames s2)(frameId f := None)\<rparr>
      in if pageClosed s3 then s3 else emit (PageFrameDetached (frameRef f)) s3)"

fun postorder :: "FrameNode \<Rightarrow> FrameNode list" where
  "postorder (FrameNode f cs) = concat (map postorder cs) @ [FrameNode f cs]"

text \<open>
  A main frame \<open>M\<close> with a child \<open>C\<close>; the child has an active context 70 in its main world,
  its utility world and both worlds of \<open>M\<close> are still waiting for theirs.
\<close>

definition contextExample :: FrameManager where
  "contextExample =
     contextCreated 5 main 70
       (fst (frameAttached (fst (frameAttached initialManager ''M'' None)) ''C'' (Some ''M'')))"

text \<open>
  Used in the proofs: from \<open>s\<close> to \<open>s'\<close> no settled promise changed, every promise settled
  in between was settled with the reason of a detached frame, the destroyed contexts were
  only added to, and the page did not close.
\<close>

definition settles :: "FrameManager \<Rightarrow> FrameManager \<Rightarrow> bool" where
  "settles s s' \<longleftrightarrow>
     (\<forall>p. (promises s p \<noteq> None \<longrightarrow> promises s' p = promises s p)
        \<and> (promises s p = None \<longrightarrow>
              promises s' p = None \<or> promises s' p = Some (destroyedReason kFrameDetached)))
     \<and> (\<exists>more. contextDestroyedCalls s' = contextDestroyedCalls s @ more)
     \<and> pageClosed s' = pageClosed s"

section \<open>The retry engine: \<^verbatim>\<open>Frame.retryWithProgressAndTimeouts\<close>\<close>

text \<open>
  The predicates of other modules that \<^verbatim>\<open>isNonRetriableError\<close> asks (\<^verbatim>\<open>isAbortError\<close> of
  progress.ts, \<^verbatim>\<open>js.isJavaScriptErrorInEvaluate\<close>, \<^verbatim>\<open>isSessionClosedError\<close>,
  \<^verbatim>\<open>dom.isNonRecoverableDOMError\<close>, \<^verbatim>\<open>isInvalidSelectorError\<close>) are not among the sources; they
  are parameters, as they answer on each error.
\<close>

record classifiers =
  isAbortError :: "error \<Rightarrow> bool"
  isJavaScriptErrorInEvaluate :: "error \<Rightarrow> bool"
  isSessionClosedError :: "error \<Rightarrow> bool"
  isNonRecoverableDOMError :: "error \<Rightarrow> bool"
  isInvalidSelectorError :: "error \<Rightarrow> bool"

text \<open>\<^verbatim>\<open>Frame.isNonRetriableError\<close>; \<open>detached\<close> is \<^verbatim>\<open>this.isDetached()\<close> at the time of the call.\<close>

definition isNonRetriableError :: "classifiers \<Rightarrow> bool \<Rightarrow> error \<Rightarrow> bool" where
  "isNonRetriableError k detached e =
     (if isAbortError k e then True
      else if isJavaScriptErrorInEvaluate k e \<or> isSessionClosedError k e then True
      else if isNonRecoverableDOMError k e \<or> isInvalidSelectorError k e then True
      else if detached then True
      else False)"

text \<open>
  Time is counted in milliseconds. The scopes an operation of a frame races against, each
  with the time at which it closes, if it ever does: the progress of the call with its
  abort error (a \<^verbatim>\<open>TimeoutError\<close> when the timeout of the call elapses), the open scope of the
  page with its close error, and the detached scope of the frame, which \<^verbatim>\<open>_onDetached\<close>
  closes with \<^verbatim>\<open>new Error('Frame was detached')\<close>.
\<close>

record scopes =
  progressAborts :: "(nat \<times> error) option"
  openScopeCloses :: "(nat \<times> error) option"
  detachedScopeCloses :: "nat option"

definition isDetached :: "scopes \<Rightarrow> nat \<Rightarrow> bool" where
  "isDetached sc now = (case detachedScopeCloses sc of None \<Rightarrow> False | Some t \<Rightarrow> t \<le> now)"

text \<open>
  Modelled from the spec: \<^verbatim>\<open>progress.race\<close> and \<^verbatim>\<open>LongStandingScope.raceMultiple\<close> (neither is
  among the sources). The spec: "\<^verbatim>\<open>close(reason)\<close> immediately settles every operation
  currently racing against this scope with that reason; \<^verbatim>\<open>race(operation, scopes...)\<close> returns
  whichever settles first: the operation's own result/error, or the first scope's close
  reason". Of several closures the earliest wins, and of two at the same time the one of
  the scope named first (progress, open scope, detached scope). An operation that takes
  \<open>d\<close> milliseconds from \<open>now\<close> loses the race to a closure before \<open>now + d\<close>, and is then
  settled with the reason at the time of the closure, or at once when the scope was closed
  already.
\<close>

definition earlier :: "(nat \<times> error) option \<Rightarrow> (nat \<times> error) option \<Rightarrow> (nat \<times> error) option" where
  "earlier a b =
     (case a of
        None \<Rightarrow> b
      | Some x \<Rightarrow> (case b of None \<Rightarrow> Some x | Some y \<Rightarrow> if fst y < fst x then Some y else Some x))"

definition earliestClosure :: "scopes \<Rightarrow> (nat \<times> error) option" where
  "earliestClosure sc =
     earlier (earlier (progressAborts sc) (openScopeCloses sc))
       (map_option (\<lambda>t. (t, Error ''Frame was detached'')) (detachedScopeCloses sc))"

definition race :: "(nat \<times> error) option \<Rightarrow> nat \<Rightarrow> nat \<Rightarrow> (error \<times> nat) + nat" where
  "race closure now d =
     (case closure of
        None \<Rightarrow> Inr (now + d)
      | Some (t, reason) \<Rightarrow> if t < now + d then Inl (reason, max now t) else Inr (now + d))"

text \<open>
  What a step of the loop does: it returns the sentinel \<open>continuePolling\<close>, returns a result,
  or throws. A step is a function of the number of the attempt, the time at which it
  starts and the state its closure has captured; it yields its outcome, the time at which
  it ends and the state it leaves.
\<close>

datatype 'r step = continuePolling | Returns 'r | Throws error

type_synonym ('r, 's) action = "nat \<Rightarrow> nat \<Rightarrow> 's \<Rightarrow> 'r step \<times> nat \<times> 's"

definition delayAt :: "nat list \<Rightarrow> nat \<Rightarrow> nat" where
  "delayAt timeouts timeoutIndex = timeouts ! min timeoutIndex (length timeouts - 1)"

text \<open>
  The loop of lines 1034-1055, for the list \<open>timeouts\<close> that already has the 0 in front.
  A delay of 0 is falsy and is not waited for, and then nothing is raced. The loop can run
  for ever: \<open>fuel\<close> bounds the iterations, and \<open>None\<close> says that the bound was reached
  before the promise settled. The result is the settled promise, the time at which it
  settled and the state of the steps.
\<close>

fun retryLoop ::
  "nat \<Rightarrow> classifiers \<Rightarrow> scopes \<Rightarrow> nat list \<Rightarrow> ('r, 's) action \<Rightarrow> nat \<Rightarrow> nat \<Rightarrow> 's
     \<Rightarrow> ('r promise \<times> nat \<times> 's) option" where
  "retryLoop 0 k sc timeouts action timeoutIndex now st = None"
| "retryLoop (Suc fuel) k sc timeouts action timeoutIndex now st =
     (let timeout = delayAt timeouts timeoutIndex
      in case (if timeout \<noteq> 0 then race (earliestClosure sc) now timeout else Inr now) of
           Inl (reason, t) \<Rightarrow> Some (Rejected reason, t, st)
         | Inr t1 \<Rightarrow>
             (case action timeoutIndex t1 st of
                (Returns result, t2, st') \<Rightarrow> Some (Resolved result, t2, st')
              | (continuePolling, t2, st') \<Rightarrow>
                  retryLoop fuel k sc timeouts action (Suc timeoutIndex) t2 st'
              | (Throws e, t2, st') \<Rightarrow>
                  if isNonRetriableError k (isDetached sc t2) e then Some (Rejected e, t2, st')
                  else retryLoop fuel k sc timeouts action (Suc timeoutIndex) t2 st'))"

definition retryWithProgressAndTimeouts ::
  "nat \<Rightarrow> classifiers \<Rightarrow> scopes \<Rightarrow> nat list \<Rightarrow> ('r, 's) action \<Rightarrow> nat \<Rightarrow> 's
     \<Rightarrow> ('r promise \<times> nat \<times> 's) option" where
  "retryWithProgressAndTimeouts fuel k sc timeouts action now st =
     retryLoop fuel k sc (0 # timeouts) action 0 now st"

text \<open>A step that takes no time, returns the sentinel whenever it is asked and keeps no state.\<close>

definition perpetual :: "('r, 's) action" where
  "perpetual = (\<lambda>attempt t st. (continuePolling, t, st))"

text \<open>
  Examples: no error is special but the invalid selector; a step that throws a transient
  error at its first attempt and an invalid selector at its second; a step that returns
  the sentinel after 10ms, whatever happens; scopes that never close; a progress that
  times out at a given time, a page that closes and a frame that detaches at a given time.
\<close>

definition onlyInvalidSelector :: classifiers where
  "onlyInvalidSelector =
     \<lparr>isAbortError = (\<lambda>_. False), isJavaScriptErrorInEvaluate = (\<lambda>_. False),
      isSessionClosedError = (\<lambda>_. False), isNonRecoverableDOMError = (\<lambda>_. False),
      isInvalidSelectorError = (\<lambda>e. e = Error ''Unexpected token while parsing selector'')\<rparr>"

definition transientThenInvalid :: "(nat, unit) action" where
  "transientThenInvalid =
     (\<lambda>attempt t st.
        if attempt = 0 then (Throws (Error ''Element is not attached to the DOM''), t, st)
        else (Throws (Error ''Unexpected token while parsing selector''), t, st))"


definition neverClosed :: scopes where
  "neverClosed = \<lparr>progressAborts = None, openScopeCloses = None, detachedScopeCloses = None\<rparr>"

definition timesOutAt :: "nat \<Rightarrow> scopes" where
  "timesOutAt t =
     \<lparr>progressAborts = Some (t, TimeoutError ''Timeout exceeded''), openScopeCloses = None,
      detachedScopeCloses = None\<rparr>"



section \<open>The assertion engine: \<^verbatim>\<open>Frame.expect\<close>\<close>

text \<open>
  The result of \<^verbatim>\<open>expect\<close>: \<open>received\<close> is \<open>None\<close> when the property is absent or undefined,
  \<open>timedOut\<close> is \<open>False\<close> when the property is absent. The log is left out.
\<close>

record ExpectResult =
  matches :: bool
  received :: "string option"
  timedOut :: bool

text \<open>The object \<^verbatim>\<open>lastIntermediateResult\<close> that \<^verbatim>\<open>expect\<close> creates and \<^verbatim>\<open>_expectInternal\<close> updates.\<close>

record LastIntermediateResult =
  lastReceived :: "string option"
  isSet :: bool

text \<open>
  What the page does is not in frames.ts; it is a parameter. \<open>preChecks n\<close> is call \<open>n\<close> of
  \<^verbatim>\<open>page.performActionPreChecks(progress)\<close>: the error it throws, if any, and the time it
  takes. \<open>evaluate n\<close> is the chain of awaits of \<^verbatim>\<open>_expectInternal\<close> in attempt \<open>n\<close> (selector
  resolution, context, injected script, \<^verbatim>\<open>injected.expect\<close> in the page), attempt 0 being the
  one-shot check: the error it throws or the \<open>matches\<close>, \<open>received\<close> and \<open>missingReceived\<close> it
  yields, and the time it takes when nothing cuts it short.
\<close>

datatype evaluation = evalThrows error | evalYields bool "string option" bool

record expect_world =
  preChecks :: "nat \<Rightarrow> error option \<times> nat"
  evaluate :: "nat \<Rightarrow> evaluation \<times> nat"

definition performActionPreChecks :: "expect_world \<Rightarrow> nat \<Rightarrow> nat \<Rightarrow> error option \<times> nat" where
  "performActionPreChecks w n now = (case preChecks w n of (thrown, d) \<Rightarrow> (thrown, now + d))"

text \<open>
  \<^verbatim>\<open>_expectInternal\<close> in attempt \<open>n\<close>, started at \<open>now\<close>: every await is raced against the progress
  unless \<open>noAbort\<close>. It yields what it returns or throws, the time at which it ends, and
  \<^verbatim>\<open>lastIntermediateResult\<close> as it leaves it.
\<close>

definition expectInternal ::
  "scopes \<Rightarrow> expect_world \<Rightarrow> bool \<Rightarrow> nat \<Rightarrow> bool \<Rightarrow> nat \<Rightarrow> LastIntermediateResult
     \<Rightarrow> (error + ExpectResult) \<times> nat \<times> LastIntermediateResult" where
  "expectInternal sc w isNot n noAbort now lastIntermediateResult =
     (case evaluate w n of
        (outcome, d) \<Rightarrow>
          (case (if noAbort then Inr (now + d) else race (progressAborts sc) now d) of
             Inl (reason, t) \<Rightarrow> (Inl reason, t, lastIntermediateResult)
           | Inr t \<Rightarrow>
               (case outcome of
                  evalThrows e \<Rightarrow> (Inl e, t, lastIntermediateResult)
                | evalYields m rcv missingReceived \<Rightarrow>
                    (Inr \<lparr>matches = m, received = rcv, timedOut = False\<rparr>, t,
                     if m = isNot
                     then \<lparr>lastReceived = (if missingReceived then Some ''<element(s) not found>''
                                             else rcv),
                           isSet = True\<rparr>
                     else lastIntermediateResult))))"

text \<open>
  The step that \<^verbatim>\<open>expect\<close> hands to the retry loop (lines 1376-1386); attempt \<open>i\<close> of the loop is
  attempt \<open>i + 1\<close> of the call.
\<close>

definition expectStep ::
  "scopes \<Rightarrow> expect_world \<Rightarrow> bool \<Rightarrow> (ExpectResult, LastIntermediateResult) action" where
  "expectStep sc w isNot attempt now lastIntermediateResult =
     (case performActionPreChecks w (Suc attempt) now of
        (Some e, t1) \<Rightarrow> (Throws e, t1, lastIntermediateResult)
      | (None, t1) \<Rightarrow>
          (case expectInternal sc w isNot (Suc attempt) False t1 lastIntermediateResult of
             (Inl e, t2, intermediate) \<Rightarrow> (Throws e, t2, intermediate)
           | (Inr result, t2, intermediate) \<Rightarrow>
               if matches result = isNot then (continuePolling, t2, intermediate)
               else (Returns \<lparr>matches = matches result, received = received result,
                               timedOut = False\<rparr>, t2, intermediate)))"

text \<open>The \<^verbatim>\<open>try\<close> block of \<^verbatim>\<open>expect\<close> (lines 1356-1388).\<close>

definition expectAttempts ::
  "nat \<Rightarrow> classifiers \<Rightarrow> scopes \<Rightarrow> expect_world \<Rightarrow> bool \<Rightarrow> nat
     \<Rightarrow> (ExpectResult promise \<times> nat \<times> LastIntermediateResult) option" where
  "expectAttempts fuel k sc w isNot now =
     (let lastIntermediateResult = \<lparr>lastReceived = None, isSet = False\<rparr>
      in case performActionPreChecks w 0 now of
           (Some e, t0) \<Rightarrow> Some (Rejected e, t0, lastIntermediateResult)
         | (None, t0) \<Rightarrow>
             (case expectInternal sc w isNot 0 True t0 lastIntermediateResult of
                (Inr resultOneShot, t1, intermediate) \<Rightarrow>
                  if matches resultOneShot \<noteq> isNot then Some (Resolved resultOneShot, t1, intermediate)
                  else retryWithProgressAndTimeouts fuel k sc [100, 250, 500, 1000]
                         (expectStep sc w isNot) t1 intermediate
              | (Inl e, t1, intermediate) \<Rightarrow>
                  if isNonRetriableError k (isDetached sc t1) e then Some (Rejected e, t1, intermediate)
                  else retryWithProgressAndTimeouts fuel k sc [100, 250, 500, 1000]
                         (expectStep sc w isNot) t1 intermediate))"

text \<open>
  \<^verbatim>\<open>expect\<close> with its \<^verbatim>\<open>catch\<close> (lines 1389-1401): the promise it returns and the time at which
  the promise settles, or \<open>None\<close> when the retry loop has not settled within \<open>fuel\<close>
  iterations.
\<close>

definition expect ::
  "nat \<Rightarrow> classifiers \<Rightarrow> scopes \<Rightarrow> expect_world \<Rightarrow> bool \<Rightarrow> nat
     \<Rightarrow> (ExpectResult promise \<times> nat) option" where
  "expect fuel k sc w isNot now =
     (case expectAttempts fuel k sc w isNot now of
        None \<Rightarrow> None
      | Some (Resolved result, t, intermediate) \<Rightarrow> Some (Resolved result, t)
      | Some (Pending, t, intermediate) \<Rightarrow> Some (Pending, t)
      | Some (Rejected e, t, intermediate) \<Rightarrow>
          if isJavaScriptErrorInEvaluate k e \<or> isInvalidSelectorError k e then Some (Rejected e, t)
          else Some (Resolved \<lparr>matches = isNot,
                                received = (if isSet intermediate then lastReceived intermediate
                                            else None),
                                timedOut = (case e of TimeoutError _ \<Rightarrow> True | _ \<Rightarrow> False)\<rparr>, t))"


text \<open>
  Examples. A page whose element is visible all along, with pre-checks that take no time;
  the same page with pre-checks that the progress cuts after 1ms; a page whose element
  never shows text other than \<open>Loading\<close>, each evaluation taking 3ms; a page queried with a
  selector that does not parse.
\<close>

definition visiblePage :: expect_world where
  "visiblePage =
     \<lparr>preChecks = (\<lambda>n. (None, 0)),
      evaluate = (\<lambda>n. (evalYields True (Some ''visible'') False, 2))\<rparr>"

definition busyPage :: expect_world where
  "busyPage =
     \<lparr>preChecks = (\<lambda>n. (Some (TimeoutError ''Timeout exceeded''), 1)),
      evaluate = (\<lambda>n. (evalYields True (Some ''visible'') False, 2))\<rparr>"

definition loadingPage :: expect_world where
  "loadingPage =
     \<lparr>preChecks = (\<lambda>n. (None, 0)),
      evaluate = (\<lambda>n. (evalYields False (Some ''Loading'') False, 3))\<rparr>"



section \<open>Notions used in the proofs\<close>

text \<open>The frame object with a given reference in a tree, and frames that agree on their documents.\<close>

definition frameAt :: "nat \<Rightarrow> FrameNode \<Rightarrow> Frame option" where
  "frameAt r t = map_option frameOf (findNode r t)"

definition sameDocuments :: "Frame \<Rightarrow> Frame \<Rightarrow> bool" where
  "sameDocuments f f' \<longleftrightarrow> frameRef f' = frameRef f \<and> currentDocument f' = currentDocument f
      \<and> pendingDocument f' = pendingDocument f"

text \<open>The invariant of the reachable states: every frame of the tree has fired \<open>commit\<close>.\<close>

definition committed :: "Frame \<Rightarrow> bool" where
  "committed f = (commit \<in> firedLifecycleEvents f)"

definition treeOk :: "FrameNode \<Rightarrow> bool" where
  "treeOk t = (\<forall>n \<in> set (nodes t). committed (frameOf n))"

definition managerOk :: "FrameManager \<Rightarrow> bool" where
  "managerOk s = (case mainFrame s of None \<Rightarrow> True | Some t \<Rightarrow> treeOk t)"

section \<open>Example scenarios\<close>







text \<open>
  A main frame \<open>F\<close> with a request in flight for document \<open>A\<close>, which is therefore its
  pending document.
\<close>

definition exampleRequest :: Request where
  "exampleRequest =
     \<lparr>requestRef = 7, request_documentId = Some ''A'', isFavicon = False, request_frame = 0\<rparr>"

definition pendingExample :: FrameManager where
  "pendingExample = requestStarted (fst (frameAttached initialManager ''F'' None)) exampleRequest"

text \<open>The same frame after the document \<open>B\<close> has committed in it.\<close>

definition committedExample :: FrameManager where
  "committedExample =
     fst (frameCommittedNewDocumentNavigation pendingExample ''F'' ''http://b'' [] ''B'' False)"

section \<open>Network idle across the tree\<close>

text \<open>
  A frame holds \<open>networkidle\<close> when the event is among its fired lifecycle events. Its
  descendants are the frames below it. A frame is consistent when it holds \<open>networkidle\<close>
  exactly if its own quiet-window flag has fired and every descendant holds \<open>networkidle\<close>;
  a manager is consistent when every frame of its tree is. \<open>retractedAbove r t\<close> says that
  every frame of \<open>t\<close> whose subtree contains the frame \<open>r\<close>, the frame \<open>r\<close> itself and each
  of its ancestors, does not hold \<open>networkidle\<close>.
\<close>

definition hasNetworkIdle :: "FrameNode \<Rightarrow> bool" where
  "hasNetworkIdle n = (networkidle \<in> firedLifecycleEvents (frameOf n))"

definition descendants :: "FrameNode \<Rightarrow> FrameNode list" where
  "descendants n = concat (map nodes (childFrames n))"

definition networkIdleConsistent :: "FrameNode \<Rightarrow> bool" where
  "networkIdleConsistent n =
     (hasNetworkIdle n \<longleftrightarrow>
        firedNetworkIdleSelf (frameOf n) \<and> list_all hasNetworkIdle (descendants n))"

definition managerIdleConsistent :: "FrameManager \<Rightarrow> bool" where
  "managerIdleConsistent s =
     (case mainFrame s of None \<Rightarrow> True | Some t \<Rightarrow> list_all networkIdleConsistent (nodes t))"

definition retractedAbove :: "nat \<Rightarrow> FrameManager \<Rightarrow> bool" where
  "retractedAbove r s =
     (case mainFrame s of
        None \<Rightarrow> False
      | Some t \<Rightarrow>
          list_all (\<lambda>n. r \<in> set (map (\<lambda>m. frameRef (frameOf m)) (nodes n)) \<longrightarrow> \<not> hasNetworkIdle n)
            (nodes t))"

text \<open>Used in the proofs: consistency with the children only, and the flag of a frame being off.\<close>

definition localConsistent :: "FrameNode \<Rightarrow> bool" where
  "localConsistent n =
     (hasNetworkIdle n \<longleftrightarrow>
        firedNetworkIdleSelf (frameOf n) \<and> list_all hasNetworkIdle (childFrames n))"

definition treeLocal :: "FrameNode \<Rightarrow> bool" where
  "treeLocal t = (\<forall>n \<in> set (nodes t). localConsistent n)"

definition selfOff :: "nat \<Rightarrow> FrameNode \<Rightarrow> bool" where
  "selfOff r t =
     (\<forall>m \<in> set (nodes t). frameRef (frameOf m) = r \<longrightarrow> \<not> firedNetworkIdleSelf (frameOf m))"

text \<open>
  A main frame \<open>M\<close> (object 0) with a child \<open>C\<close> (object 5), just attached; then both
  quiet for the whole window, the child first, so that both hold \<open>networkidle\<close>.
  \<open>idleSummary\<close> lists, for each frame of the tree, its id, whether it holds \<open>networkidle\<close>
  and whether its own flag has fired.
\<close>

definition attachedExample :: FrameManager where
  "attachedExample =
     fst (frameAttached (fst (frameAttached initialManager ''M'' None)) ''C'' (Some ''M''))"

definition idleExample :: FrameManager where
  "idleExample = networkIdleTimerFired (networkIdleTimerFired attachedExample 5) 0"

definition idleSummary :: "FrameManager \<Rightarrow> (string \<times> bool \<times> bool) list" where
  "idleSummary s =
     map (\<lambda>f. (frameId f, networkidle \<in> firedLifecycleEvents f, firedNetworkIdleSelf f)) (liveFrames s)"

definition xhrRequest :: Request where
  "xhrRequest = \<lparr>requestRef = 9, request_documentId = None, isFavicon = False, request_frame = 5\<rparr>"

section \<open>Facts about the frame tree\<close>

lemmas evaluation_defs =
  frameAttached_def initialManager_def newFrame_def startNetworkIdleTimer_def
  stopNetworkIdleTimer_def requestStarted_def inflightRequestStarted_def setPendingDocument_def
  frame_def frameNode_def frameByRef_def findNode_def onTree_def emit_def truthy_def
  kDummyFrameId_def Let_def

lemma find_map_option: "find P (map h xs) = map_option h (find (P \<circ> h) xs)"
  by (induction xs) auto

lemma find_append_case:
  "find P (xs @ ys) = (case find P xs of None \<Rightarrow> find P ys | Some x \<Rightarrow> Some x)"
  by (induction xs) auto

lemma find_concat_cong:
  assumes "\<And>x. x \<in> set xs \<Longrightarrow> map_option k (find P (h x)) = map_option k (find P (h' x))"
  shows "map_option k (find P (concat (map h xs))) = map_option k (find P (concat (map h' xs)))"
  using assms
proof (induction xs)
  case Nil
  then show ?case by simp
next
  case (Cons x xs)
  have x: "map_option k (find P (h x)) = map_option k (find P (h' x))"
    using Cons.prems by simp
  have r: "map_option k (find P (concat (map h xs))) = map_option k (find P (concat (map h' xs)))"
    using Cons by simp
  show ?case
  proof (cases "find P (h x)")
    case None
    then have "find P (h' x) = None" using x by simp
    with None r show ?thesis by (simp add: find_append_case)
  next
    case (Some a)
    then obtain b where "find P (h' x) = Some b" using x by (cases "find P (h' x)") auto
    with Some x show ?thesis by (simp add: find_append_case)
  qed
qed

lemma fold_preserves:
  assumes "\<And>x s. x \<in> set xs \<Longrightarrow> P (h x s) = P s"
  shows "P (fold h xs s) = P s"
  using assms by (induction xs arbitrary: s) auto

lemma nodes_updateFrame: "nodes (updateFrame r g t) = map (updateFrame r g) (nodes t)"
  by (induction r g t rule: updateFrame.induct) (simp add: map_concat comp_def cong: map_cong)

lemma frameOf_updateFrame:
  "frameOf (updateFrame r g n) = (if frameRef (frameOf n) = r then g (frameOf n) else frameOf n)"
  by (cases n) simp

lemma findNode_updateFrame:
  assumes "\<And>f. frameRef f = r \<Longrightarrow> frameRef (g f) = r"
  shows "findNode r' (updateFrame r g t) = map_option (updateFrame r g) (findNode r' t)"
proof -
  have "(\<lambda>n. frameRef (frameOf n) = r') \<circ> updateFrame r g = (\<lambda>n. frameRef (frameOf n) = r')"
    using assms by (auto simp: fun_eq_iff frameOf_updateFrame)
  then show ?thesis
    by (simp add: findNode_def nodes_updateFrame find_map_option)
qed

lemma findNode_ref: "findNode r t = Some n \<Longrightarrow> frameRef (frameOf n) = r"
  by (auto simp: findNode_def find_Some_iff)

lemma nodes_recalc: "nodes (recalculateNetworkIdle a t) = map (recalculateNetworkIdle a) (nodes t)"
  by (induction a t rule: recalculateNetworkIdle.induct)
     (simp add: Let_def map_concat comp_def cong: map_cong)

lemma frameOf_recalc:
  "frameOf (recalculateNetworkIdle a n) =
     (frameOf n)\<lparr>firedLifecycleEvents := firedLifecycleEvents (frameOf (recalculateNetworkIdle a n))\<rparr>"
  by (cases n) (simp add: Let_def)

lemma frameRef_recalc [simp]:
  "frameRef (frameOf (recalculateNetworkIdle a n)) = frameRef (frameOf n)"
  by (cases n) (simp add: Let_def)

lemma findNode_recalc:
  "findNode r (recalculateNetworkIdle a t) = map_option (recalculateNetworkIdle a) (findNode r t)"
  by (simp add: findNode_def nodes_recalc find_map_option comp_def)

lemma frameAt_updateFrame:
  assumes "\<And>f. frameRef f = r \<Longrightarrow> frameRef (g f) = r"
  shows "frameAt r' (updateFrame r g t) =
           map_option (\<lambda>f. if frameRef f = r then g f else f) (frameAt r' t)"
  using assms
  by (simp add: frameAt_def findNode_updateFrame option.map_comp comp_def frameOf_updateFrame)

lemma frameAt_ref: "frameAt r t = Some f \<Longrightarrow> frameRef f = r"
  by (auto simp: frameAt_def dest: findNode_ref)

lemma frameAt_recalc_fields:
  "map_option (\<lambda>f. f\<lparr>firedLifecycleEvents := {}\<rparr>) (frameAt r (recalculateNetworkIdle a t)) =
   map_option (\<lambda>f. f\<lparr>firedLifecycleEvents := {}\<rparr>) (frameAt r t)"
proof -
  have "(\<lambda>n. (frameOf (recalculateNetworkIdle a n))\<lparr>firedLifecycleEvents := {}\<rparr>)
        = (\<lambda>n. (frameOf n)\<lparr>firedLifecycleEvents := {}\<rparr>)"
  proof
    fix n
    show "(frameOf (recalculateNetworkIdle a n))\<lparr>firedLifecycleEvents := {}\<rparr>
            = (frameOf n)\<lparr>firedLifecycleEvents := {}\<rparr>"
      by (subst frameOf_recalc) simp
  qed
  then show ?thesis
    by (simp add: frameAt_def findNode_recalc option.map_comp comp_def)
qed

lemma frameAt_clearChildren: "frameAt r (clearChildren r t) = frameAt r t"
proof (induction r t rule: clearChildren.induct)
  case (1 r f cs)
  show ?case
  proof (cases "frameRef f = r")
    case True
    then show ?thesis by (simp add: frameAt_def findNode_def)
  next
    case False
    have "map_option frameOf
            (find (\<lambda>n. frameRef (frameOf n) = r) (concat (map (\<lambda>c. nodes (clearChildren r c)) cs)))
        = map_option frameOf (find (\<lambda>n. frameRef (frameOf n) = r) (concat (map nodes cs)))"
      by (rule find_concat_cong) (use 1 False in \<open>simp add: frameAt_def findNode_def\<close>)
    with False show ?thesis by (simp add: frameAt_def findNode_def comp_def)
  qed
qed

lemma frame_Some:
  assumes "frame s fid = Some f"
  obtains t where "mainFrame s = Some t" and "frameAt (frameRef f) t = Some f"
    and "frames s fid = Some (frameRef f)" and "frameByRef s (frameRef f) = Some f"
proof -
  from assms obtain r t n where a: "frames s fid = Some r" "mainFrame s = Some t"
      "findNode r t = Some n" "frameOf n = f"
    by (auto simp: frame_def frameNode_def split: option.splits)
  then have "frameRef f = r" using findNode_ref by blast
  with a show ?thesis
    using that by (auto simp: frameAt_def frameByRef_def)
qed

lemma frameNode_Some:
  assumes "frameNode s fid = Some n"
  obtains t where "mainFrame s = Some t" and "frameAt (frameRef (frameOf n)) t = Some (frameOf n)"
proof -
  from assms obtain r t where a: "frames s fid = Some r" "mainFrame s = Some t"
      "findNode r t = Some n"
    by (auto simp: frameNode_def split: option.splits)
  then have "frameRef (frameOf n) = r" using findNode_ref by blast
  with a show ?thesis using that by (auto simp: frameAt_def)
qed

lemma frameByRef_onTree:
  "frameByRef (onTree g s) r = (case mainFrame s of None \<Rightarrow> None | Some t \<Rightarrow> frameAt r (g t))"
  by (simp add: frameByRef_def onTree_def frameAt_def split: option.splits)

lemma mainFrame_resolvePromise [simp]: "mainFrame (resolvePromise p v s) = mainFrame s"
  by (simp add: resolvePromise_def)

lemma mainFrame_contextDestroyed [simp]: "mainFrame (contextDestroyed c x s) = mainFrame s"
  by (simp add: contextDestroyed_def)

lemma mainFrame_emit [simp]: "mainFrame (emit e s) = mainFrame s"
  by (simp add: emit_def)

lemma mainFrame_onDetachedContexts [simp]: "mainFrame (onDetachedContexts f s) = mainFrame s"
  by (simp add: onDetachedContexts_def split: option.splits)

lemma mainFrame_removeFramesRecursively [simp]:
  "mainFrame (removeFramesRecursively n s) = mainFrame s"
proof (induction n s rule: removeFramesRecursively.induct)
  case (1 f cs s)
  have "mainFrame (fold removeFramesRecursively cs s) = mainFrame s"
    by (rule fold_preserves) (use 1 in simp)
  then show ?case by (simp add: Let_def)
qed

lemma mainFrame_removeChildFramesRecursively [simp]:
  "mainFrame (removeChildFramesRecursively n s) = mainFrame s"
  unfolding removeChildFramesRecursively_def by (rule fold_preserves) simp

lemma mainFrame_clearWebSockets [simp]: "mainFrame (clearWebSockets r s) = mainFrame s"
  by (simp add: clearWebSockets_def split: option.splits)

lemma mainFrame_onTree [simp]: "mainFrame (onTree g s) = map_option g (mainFrame s)"
  by (simp add: onTree_def)

lemma clearLifecycleSelf_Inr:
  "\<exists>f'. clearLifecycleSelf f = Inr f' \<and> frameRef f' = frameRef f
        \<and> currentDocument f' = currentDocument f \<and> pendingDocument f' = pendingDocument f
        \<and> firedLifecycleEvents f' = {} \<and> \<not> firedNetworkIdleSelf f'"
  by (simp add: clearLifecycleSelf_def Let_def stopNetworkIdleTimer_def startNetworkIdleTimer_def)

lemma sameDocuments_trans: "sameDocuments a b \<Longrightarrow> sameDocuments b c \<Longrightarrow> sameDocuments a c"
  by (simp add: sameDocuments_def)

lemma frameAt_recalc_same:
  assumes "frameAt r t = Some f"
  shows "\<exists>f'. frameAt r (recalculateNetworkIdle a t) = Some f' \<and> sameDocuments f f'"
proof -
  from frameAt_recalc_fields[of r a t] assms
  obtain f' where f': "frameAt r (recalculateNetworkIdle a t) = Some f'"
      "f'\<lparr>firedLifecycleEvents := {}\<rparr> = f\<lparr>firedLifecycleEvents := {}\<rparr>"
    by (cases "frameAt r (recalculateNetworkIdle a t)") auto
  have "frameRef (f'\<lparr>firedLifecycleEvents := {}\<rparr>) = frameRef (f\<lparr>firedLifecycleEvents := {}\<rparr>)"
       "currentDocument (f'\<lparr>firedLifecycleEvents := {}\<rparr>) = currentDocument (f\<lparr>firedLifecycleEvents := {}\<rparr>)"
       "pendingDocument (f'\<lparr>firedLifecycleEvents := {}\<rparr>) = pendingDocument (f\<lparr>firedLifecycleEvents := {}\<rparr>)"
    using f'(2) by simp_all
  then have "sameDocuments f f'" by (simp add: sameDocuments_def)
  with f'(1) show ?thesis by simp
qed

lemma frameAt_onLifecycleEvent_same:
  assumes "frameAt r' t = Some f"
  shows "\<exists>f'. frameAt r' (onLifecycleEvent r event t) = Some f' \<and> sameDocuments f f'"
proof (cases "findNode r t")
  case None
  then show ?thesis using assms by (simp add: onLifecycleEvent_def sameDocuments_def)
next
  case (Some n)
  show ?thesis
  proof (cases "event \<in> firedLifecycleEvents (frameOf n)")
    case True
    then show ?thesis using assms Some by (simp add: onLifecycleEvent_def sameDocuments_def)
  next
    case False
    let ?g = "\<lambda>f. f\<lparr>firedLifecycleEvents := insert event (firedLifecycleEvents f)\<rparr>"
    have "frameAt r' (updateFrame r ?g t) = Some (if frameRef f = r then ?g f else f)"
      using assms by (simp add: frameAt_updateFrame)
    then obtain f1 where f1: "frameAt r' (updateFrame r ?g t) = Some f1" "sameDocuments f f1"
      by (auto simp: sameDocuments_def)
    from frameAt_recalc_same[OF f1(1), of None] f1(2) show ?thesis
      using Some False by (auto simp: onLifecycleEvent_def intro: sameDocuments_trans)
  qed
qed

lemma onClearLifecycle_same:
  assumes "frameAt r t = Some f"
  shows "\<exists>t' f'. onClearLifecycle r t = Inr t' \<and> frameAt r t' = Some f' \<and> sameDocuments f f'"
proof -
  from assms obtain n where n: "findNode r t = Some n" "frameOf n = f"
    by (auto simp: frameAt_def)
  have rf: "frameRef f = r" using assms by (rule frameAt_ref)
  from clearLifecycleSelf_Inr[of f] obtain f1 where f1: "clearLifecycleSelf f = Inr f1"
      "sameDocuments f f1"
    by (auto simp: sameDocuments_def)
  have "frameAt r (updateFrame r (\<lambda>_. f1) t) = Some f1"
    using assms rf f1(2) by (simp add: frameAt_updateFrame sameDocuments_def)
  from frameAt_recalc_same[OF this, of "Some r"] obtain f2 where
    f2: "frameAt r (recalculateNetworkIdle (Some r) (updateFrame r (\<lambda>_. f1) t)) = Some f2"
      "sameDocuments f1 f2"
    by blast
  from frameAt_onLifecycleEvent_same[OF f2(1), of r commit] obtain f3 where
    f3: "frameAt r (onLifecycleEvent r commit
            (recalculateNetworkIdle (Some r) (updateFrame r (\<lambda>_. f1) t))) = Some f3"
      "sameDocuments f2 f3"
    by blast
  have "sameDocuments f f3" using f1(2) f2(2) f3(2) by (blast intro: sameDocuments_trans)
  then show ?thesis using n f1(1) f3(1) by (simp add: onClearLifecycle_def)
qed

section \<open>Claims about navigation\<close>





text \<open>
  Claim C2, as the code has it. For a frame with a pending document,
  \<^verbatim>\<open>frameRequestedNavigation\<close> leaves the frame untouched exactly when the document id passed
  in is the pending document's own id (both undefined included). Any other id, undefined
  included, replaces the pending document by one with the id passed in and the request in
  flight for that id, if the id is truthy and there is one.
\<close>

theorem C2_requested_navigation:
  assumes "frame s fid = Some f" and "pendingDocument f = Some p"
  shows "frameByRef (frameRequestedNavigation s fid d) (frameRef f) =
           Some (if documentId p = d then f
                 else f\<lparr>pendingDocument := Some \<lparr>documentId = d,
                        request = (if truthy d
                                   then find (\<lambda>q. request_documentId q = d) (inflightRequests f)
                                   else None)\<rparr>\<rparr>)"
proof -
  from assms(1) obtain t where t: "mainFrame s = Some t" "frameAt (frameRef f) t = Some f"
      "frameByRef s (frameRef f) = Some f"
    by (rule frame_Some)
  show ?thesis
  proof (cases "documentId p = d")
    case True
    then show ?thesis using assms t by (simp add: frameRequestedNavigation_def)
  next
    case False
    then show ?thesis using assms t
      by (simp add: frameRequestedNavigation_def Let_def frameByRef_onTree frameAt_updateFrame
            setPendingDocument_def)
  qed
qed

lemma pendingExample_frame:
  "map_option (\<lambda>f. (frameRef f, pendingDocument f)) (frame pendingExample ''F'')
     = Some (0, Some \<lparr>documentId = Some ''A'', request = Some exampleRequest\<rparr>)"
  by (simp add: pendingExample_def exampleRequest_def evaluation_defs)

theorem C2_requested_navigation_witness:
  "map_option pendingDocument
     (frameByRef (frameRequestedNavigation pendingExample ''F'' (Some ''A'')) 0)
     = Some (Some \<lparr>documentId = Some ''A'', request = Some exampleRequest\<rparr>)
   \<and> map_option pendingDocument
     (frameByRef (frameRequestedNavigation pendingExample ''F'' (Some ''B'')) 0)
     = Some (Some \<lparr>documentId = Some ''B'', request = None\<rparr>)"
proof -
  from pendingExample_frame obtain f where f: "frame pendingExample ''F'' = Some f"
      "frameRef f = 0" "pendingDocument f = Some \<lparr>documentId = Some ''A'', request = Some exampleRequest\<rparr>"
    by auto
  have inflight: "inflightRequests f = [exampleRequest]"
    using f(1) by (auto simp: pendingExample_def exampleRequest_def evaluation_defs)
  show ?thesis
    using C2_requested_navigation[OF f(1) f(3), of "Some ''A''"]
      C2_requested_navigation[OF f(1) f(3), of "Some ''B''"] f(2) f(3) inflight
    by (simp add: truthy_def exampleRequest_def)
qed

text \<open>
  The claim as stated fails: the pending document of \<open>F\<close> has the known id \<open>A\<close> and a
  request, and a call with an undefined id replaces it by a document without id and
  without request.
\<close>

theorem C2_requested_navigation_counterexample:
  "map_option pendingDocument (frame pendingExample ''F'')
     = Some (Some \<lparr>documentId = Some ''A'', request = Some exampleRequest\<rparr>)
   \<and> map_option pendingDocument (frame (frameRequestedNavigation pendingExample ''F'' None) ''F'')
     = Some (Some \<lparr>documentId = None, request = None\<rparr>)"
  by (simp add: pendingExample_def exampleRequest_def frameRequestedNavigation_def
        evaluation_defs)

text \<open>
  Claim C4. When the frame has a pending document whose id is set and differs from the
  committed id, \<^verbatim>\<open>frameCommittedNewDocumentNavigation\<close> does not throw, the frame's current
  document becomes the committed id without a request, and the original pending document
  is the frame's pending document again when the call returns.
\<close>

theorem C4_commit_keeps_pending:
  assumes fr: "frame s fid = Some f"
    and pend: "pendingDocument f = Some p"
    and known: "documentId p = Some pd"
    and differs: "pd \<noteq> d"
  shows "snd (frameCommittedNewDocumentNavigation s fid u nm d initial) = None
       \<and> map_option currentDocument
           (frameByRef (fst (frameCommittedNewDocumentNavigation s fid u nm d initial)) (frameRef f))
          = Some \<lparr>documentId = Some d, request = None\<rparr>
       \<and> map_option pendingDocument
           (frameByRef (fst (frameCommittedNewDocumentNavigation s fid u nm d initial)) (frameRef f))
          = Some (Some p)"
proof -
  from fr obtain n where n: "frameNode s fid = Some n" "frameOf n = f"
    by (auto simp: frame_def)
  from n(1) obtain t where t: "mainFrame s = Some t" "frameAt (frameRef f) t = Some f"
    using n(2) by (auto elim: frameNode_Some)
  define r where "r = frameRef f"
  define fc where "fc = fst (commitDocument d (f\<lparr>frameUrl := u, frameName := nm\<rparr>))"
  have fc: "frameRef fc = r" "currentDocument fc = \<lparr>documentId = Some d, request = None\<rparr>"
      "snd (commitDocument d (f\<lparr>frameUrl := u, frameName := nm\<rparr>)) = Some p"
    using pend known differs by (simp_all add: fc_def r_def commitDocument_def setPendingDocument_def)
  define s3 where "s3 = onTree (updateFrame r (\<lambda>_. fc))
      (clearWebSockets r (onTree (clearChildren r) (removeChildFramesRecursively n s)))"
  define t3 where "t3 = updateFrame r (\<lambda>_. fc) (clearChildren r t)"
  have m3: "mainFrame s3 = Some t3"
    by (simp add: s3_def t3_def t(1))
  have a3: "frameAt r t3 = Some fc"
    using t(2) fc(1) by (simp add: t3_def frameAt_updateFrame frameAt_clearChildren r_def)
  from onClearLifecycle_same[OF a3] obtain t4 f4 where
    t4: "onClearLifecycle r t3 = Inr t4" "frameAt r t4 = Some f4" "sameDocuments fc f4"
    by blast
  have cl: "clearLifecycle r s3 = (s3\<lparr>mainFrame := Some t4\<rparr>, None)"
    using m3 t4(1) by (simp add: clearLifecycle_def)
  have res: "frameCommittedNewDocumentNavigation s fid u nm d initial =
      (onTree (updateFrame r (setPendingDocument (Some p)))
         ((if \<not> initial then emit (PageFrameNavigatedToNewDocument r) else id)
            (emit (InternalNavigation r \<lparr>url = u, name = nm, newDocument = Some (currentDocument fc),
                     error = None, isPublic = True\<rparr>) (s3\<lparr>mainFrame := Some t4\<rparr>))), None)"
    using n cl fc(3)
    by (simp add: frameCommittedNewDocumentNavigation_def Let_def r_def[symmetric] fc_def[symmetric]
          s3_def[symmetric])
  have fin: "frameByRef (fst (frameCommittedNewDocumentNavigation s fid u nm d initial)) r
      = Some (setPendingDocument (Some p) f4)"
    using t4(2) frameAt_ref[OF t4(2)]
    by (simp add: res frameByRef_onTree frameAt_updateFrame setPendingDocument_def)
  show ?thesis
    using fin t4(3) fc(2) by (simp add: res r_def[symmetric] sameDocuments_def setPendingDocument_def)
qed

theorem C4_commit_keeps_pending_witness:
  "snd (frameCommittedNewDocumentNavigation pendingExample ''F'' ''http://b'' [] ''B'' False) = None
   \<and> map_option currentDocument
       (frameByRef (fst (frameCommittedNewDocumentNavigation pendingExample ''F'' ''http://b'' [] ''B'' False)) 0)
      = Some \<lparr>documentId = Some ''B'', request = None\<rparr>
   \<and> map_option pendingDocument
       (frameByRef (fst (frameCommittedNewDocumentNavigation pendingExample ''F'' ''http://b'' [] ''B'' False)) 0)
      = Some (Some \<lparr>documentId = Some ''A'', request = Some exampleRequest\<rparr>)"
proof -
  from pendingExample_frame obtain f where f: "frame pendingExample ''F'' = Some f"
      "frameRef f = 0" "pendingDocument f = Some \<lparr>documentId = Some ''A'', request = Some exampleRequest\<rparr>"
    by auto
  have k: "documentId \<lparr>documentId = Some ''A'', request = Some exampleRequest\<rparr> = Some ''A''"
    by simp
  have d: "''A'' \<noteq> ''B''" by simp
  show ?thesis
    using C4_commit_keeps_pending[OF f(1) f(3) k d, of "''http://b''" "[]" False] f(2) f(3)
    by simp
qed

section \<open>Claims about the lifecycle events\<close>

lemma committed_recalc [simp]:
  "committed (frameOf (recalculateNetworkIdle a n)) = committed (frameOf n)"
  by (cases n) (auto simp: committed_def Let_def)

lemma treeOk_recalc [simp]: "treeOk (recalculateNetworkIdle a t) = treeOk t"
  by (simp add: treeOk_def nodes_recalc)

lemma treeOk_updateFrame:
  assumes "treeOk t" and "\<And>f. committed f \<Longrightarrow> frameRef f = r \<Longrightarrow> committed (g f)"
  shows "treeOk (updateFrame r g t)"
  using assms by (auto simp: treeOk_def nodes_updateFrame frameOf_updateFrame)

lemma frames_addChild:
  "frameOf ` set (nodes (addChild p c t)) \<subseteq> frameOf ` set (nodes t) \<union> frameOf ` set (nodes c)"
proof (induction p c t rule: addChild.induct)
  case (1 p c f cs)
  then show ?case by (auto simp: image_iff) blast+
qed


lemma frames_clearChildren: "frameOf ` set (nodes (clearChildren r t)) \<subseteq> frameOf ` set (nodes t)"
proof (induction r t rule: clearChildren.induct)
  case (1 r f cs)
  then show ?case by (auto simp: image_iff)
qed

lemma frames_removeNode: "frameOf ` set (nodes (removeNode r t)) \<subseteq> frameOf ` set (nodes t)"
proof (induction r t rule: removeNode.induct)
  case (1 r f cs)
  then show ?case by (auto simp: image_iff)
qed

lemma treeOk_subset:
  assumes "frameOf ` set (nodes t') \<subseteq> frameOf ` set (nodes t)" and "treeOk t"
  shows "treeOk t'"
  using assms by (auto simp: treeOk_def)

lemma treeOk_addChild: "treeOk t \<Longrightarrow> treeOk c \<Longrightarrow> treeOk (addChild p c t)"
  using frames_addChild[of p c t] by (auto simp: treeOk_def)

lemma treeOk_clearChildren: "treeOk t \<Longrightarrow> treeOk (clearChildren r t)"
  by (rule treeOk_subset[OF frames_clearChildren])

lemma treeOk_removeNode: "treeOk t \<Longrightarrow> treeOk (removeNode r t)"
  by (rule treeOk_subset[OF frames_removeNode])

lemma committed_newFrame: "committed (newFrame n fid)"
  by (simp add: committed_def newFrame_def startNetworkIdleTimer_def Let_def)

lemma treeOk_root: "treeOk t \<Longrightarrow> committed (frameOf t)"
  by (cases t) (simp add: treeOk_def)

lemma treeOk_cutNode:
  assumes "treeOk t"
  shows "treeOk (cutNode r t)"
proof (cases "frameRef (frameOf t) = r")
  case True
  have "committed (frameOf t)" using assms by (rule treeOk_root)
  then have "committed (onDetachedSelf (frameOf t))"
    by (simp add: committed_def onDetachedSelf_def stopNetworkIdleTimer_def)
  then show ?thesis using True by (simp add: cutNode_def treeOk_def)
next
  case False
  then show ?thesis using assms by (simp add: cutNode_def treeOk_removeNode)
qed

lemma treeOk_findNode: "treeOk t \<Longrightarrow> findNode r t = Some n \<Longrightarrow> committed (frameOf n)"
  by (auto simp: treeOk_def findNode_def find_Some_iff)

lemma treeOk_onLifecycleEvent: "treeOk t \<Longrightarrow> treeOk (onLifecycleEvent r event t)"
  by (auto simp: onLifecycleEvent_def committed_def intro!: treeOk_updateFrame split: option.splits)

lemma treeOk_onClearLifecycle:
  assumes "treeOk t" and "onClearLifecycle r t = Inr t'"
  shows "treeOk t'"
proof (cases "findNode r t")
  case None
  then show ?thesis using assms by (simp add: onClearLifecycle_def)
next
  case (Some n)
  from clearLifecycleSelf_Inr[of "frameOf n"] obtain f' where
    f': "clearLifecycleSelf (frameOf n) = Inr f'" "frameRef f' = frameRef (frameOf n)"
      "firedLifecycleEvents f' = {}"
    by blast
  have rn: "frameRef (frameOf n) = r" using Some by (rule findNode_ref)
  define t2 where "t2 = recalculateNetworkIdle (Some r) (updateFrame r (\<lambda>_. f') t)"
  have t': "t' = onLifecycleEvent r commit t2"
    using assms(2) Some f'(1) by (simp add: onClearLifecycle_def t2_def)
  have others: "\<forall>m \<in> set (nodes t2). frameRef (frameOf m) \<noteq> r \<longrightarrow> committed (frameOf m)"
    using assms(1) f'(2) rn
    by (auto simp: t2_def nodes_recalc nodes_updateFrame frameOf_updateFrame treeOk_def)
  have selfs: "\<forall>m \<in> set (nodes t2). frameRef (frameOf m) = r \<longrightarrow> \<not> committed (frameOf m)"
  proof -
    have "\<not> committed f'" using f'(3) by (simp add: committed_def)
    then show ?thesis
      by (auto simp: t2_def nodes_recalc nodes_updateFrame frameOf_updateFrame)
  qed
  have "findNode r t2 = map_option (recalculateNetworkIdle (Some r)) (map_option (updateFrame r (\<lambda>_. f')) (findNode r t))"
    using f'(2) rn by (simp add: t2_def findNode_recalc findNode_updateFrame)
  then obtain m where m: "findNode r t2 = Some m" using Some by simp
  then have "m \<in> set (nodes t2)" "frameRef (frameOf m) = r"
    by (auto simp: findNode_def find_Some_iff)
  with selfs have nm: "commit \<notin> firedLifecycleEvents (frameOf m)" by (auto simp: committed_def)
  have "treeOk (updateFrame r (\<lambda>f. f\<lparr>firedLifecycleEvents := insert commit (firedLifecycleEvents f)\<rparr>) t2)"
    using others
    by (auto simp: treeOk_def nodes_updateFrame frameOf_updateFrame committed_def)
  then show ?thesis
    using m nm by (simp add: t' onLifecycleEvent_def)
qed

lemma managerOk_onTree:
  assumes "managerOk s" and "\<And>t. mainFrame s = Some t \<Longrightarrow> treeOk t \<Longrightarrow> treeOk (g t)"
  shows "managerOk (onTree g s)"
  using assms by (auto simp: managerOk_def onTree_def split: option.splits)

lemma managerOk_mainFrame: "mainFrame s' = mainFrame s \<Longrightarrow> managerOk s' = managerOk s"
  by (simp add: managerOk_def)

lemma managerOk_frameByRef: "managerOk s \<Longrightarrow> frameByRef s r = Some f \<Longrightarrow> committed f"
  by (auto simp: managerOk_def frameByRef_def split: option.splits dest: treeOk_findNode)

lemma managerOk_frameNode: "managerOk s \<Longrightarrow> frameNode s fid = Some n \<Longrightarrow> committed (frameOf n)"
  by (auto simp: managerOk_def frameNode_def split: option.splits dest: treeOk_findNode)

lemma managerOk_frame: "managerOk s \<Longrightarrow> frame s fid = Some f \<Longrightarrow> committed f"
  by (auto simp: frame_def dest: managerOk_frameNode)

lemma managerOk_clearLifecycle: "managerOk s \<Longrightarrow> managerOk (fst (clearLifecycle r s))"
  by (auto simp: clearLifecycle_def managerOk_def split: option.splits sum.splits
        dest: treeOk_onClearLifecycle)

lemma managerOk_frameAttached: "managerOk s \<Longrightarrow> managerOk (fst (frameAttached s fid p))"
proof -
  assume ok: "managerOk s"
  have new: "treeOk (FrameNode (newFrame n fid) [])" for n
    by (simp add: treeOk_def committed_newFrame)
  show ?thesis
  proof (cases "if truthy p then frameNode s (the p) else None")
    case None
    show ?thesis
    proof (cases "mainFrame s")
      case N: None
      then show ?thesis using None new by (simp add: frameAttached_def managerOk_def)
    next
      case (Some t)
      then have "treeOk t" using ok by (simp add: managerOk_def)
      then have "treeOk (FrameNode ((frameOf t)\<lparr>frameId := fid\<rparr>) (childFrames t))"
        by (cases t) (simp add: treeOk_def committed_def)
      then show ?thesis using None Some by (simp add: frameAttached_def managerOk_def)
    qed
  next
    case (Some parent)
    show ?thesis
    proof (cases "frames s fid")
      case None
      have "managerOk (s\<lparr>frames := (frames s)(fid \<mapsto> nextRef s),
                     mainFrame := map_option (addChild (frameRef (frameOf parent))
                                    (FrameNode (newFrame (nextRef s) fid) [])) (mainFrame s),
                     nextRef := nextRef s + 5\<rparr>)"
        using ok new by (auto simp: managerOk_def treeOk_addChild split: option.splits)
      then show ?thesis using Some None
        by (simp add: frameAttached_def managerOk_mainFrame[of "emit e s'" s' for e s'])
    next
      case S: (Some a)
      then show ?thesis using Some ok by (simp add: frameAttached_def)
    qed
  qed
qed


lemma managerOk_emit [simp]: "managerOk (emit e s) = managerOk s"
  by (simp add: managerOk_def)

lemma managerOk_removeFramesRecursively [simp]: "managerOk (removeFramesRecursively n s) = managerOk s"
  by (simp add: managerOk_def)

lemma managerOk_removeChildFramesRecursively [simp]:
  "managerOk (removeChildFramesRecursively n s) = managerOk s"
  by (simp add: managerOk_def)

lemma managerOk_clearWebSockets [simp]: "managerOk (clearWebSockets r s) = managerOk s"
  by (simp add: managerOk_def)

lemma managerOk_resolvePromise [simp]: "managerOk (resolvePromise p v s) = managerOk s"
  by (simp add: managerOk_def)

lemma managerOk_contextDestroyed [simp]: "managerOk (contextDestroyed c x s) = managerOk s"
  by (simp add: managerOk_def)

lemma managerOk_frameDetached: "managerOk s \<Longrightarrow> managerOk (frameDetached s fid)"
  by (auto simp: frameDetached_def treeOk_cutNode intro!: managerOk_onTree split: option.splits)

lemma managerOk_update:
  assumes "managerOk s" and "\<And>f. committed f \<Longrightarrow> frameRef f = r \<Longrightarrow> committed (g f)"
  shows "managerOk (onTree (updateFrame r g) s)"
  using assms by (auto intro!: managerOk_onTree treeOk_updateFrame)

lemma managerOk_frameRequestedNavigation:
  "managerOk s \<Longrightarrow> managerOk (frameRequestedNavigation s fid d)"
  by (auto simp: frameRequestedNavigation_def Let_def setPendingDocument_def committed_def
        intro!: managerOk_update split: option.splits)

lemma committed_commitDocument: "committed f \<Longrightarrow> committed (fst (commitDocument d f))"
  by (auto simp: commitDocument_def committed_def setPendingDocument_def Let_def split: option.splits)

lemma managerOk_committed:
  assumes "managerOk s"
  shows "managerOk (fst (frameCommittedNewDocumentNavigation s fid u nm d initial))"
proof (cases "frameNode s fid")
  case None
  then show ?thesis using assms by (simp add: frameCommittedNewDocumentNavigation_def)
next
  case (Some n)
  define r where "r = frameRef (frameOf n)"
  define fc where "fc = fst (commitDocument d ((frameOf n)\<lparr>frameUrl := u, frameName := nm\<rparr>))"
  define s3 where "s3 = onTree (updateFrame r (\<lambda>_. fc))
      (clearWebSockets r (onTree (clearChildren r) (removeChildFramesRecursively n s)))"
  have "committed (frameOf n)" using assms Some by (rule managerOk_frameNode)
  then have cfc: "committed fc"
    unfolding fc_def by (intro committed_commitDocument) (simp add: committed_def)
  have "managerOk (onTree (clearChildren r) (removeChildFramesRecursively n s))"
    using assms by (auto intro!: managerOk_onTree treeOk_clearChildren)
  then have "managerOk s3"
    unfolding s3_def using cfc by (intro managerOk_update) simp_all
  then have ok4: "managerOk (fst (clearLifecycle r s3))" by (rule managerOk_clearLifecycle)
  show ?thesis
  proof (cases "clearLifecycle r s3")
    case (Pair s4 thrown)
    then have "managerOk s4" using ok4 by simp
    then show ?thesis
      using Some Pair
      by (cases thrown)
         (auto simp: frameCommittedNewDocumentNavigation_def Let_def r_def[symmetric]
            fc_def[symmetric] s3_def[symmetric] setPendingDocument_def committed_def
            intro!: managerOk_update)
  qed
qed

lemma managerOk_sameDocument:
  "managerOk s \<Longrightarrow> managerOk (frameCommittedSameDocumentNavigation s fid u)"
  by (auto simp: frameCommittedSameDocumentNavigation_def Let_def setPendingDocument_def committed_def
        intro!: managerOk_update split: option.splits)

lemma managerOk_aborted: "managerOk s \<Longrightarrow> managerOk (frameAbortedNavigation s fid x d)"
  by (auto simp: frameAbortedNavigation_def setPendingDocument_def committed_def
        intro!: managerOk_update split: option.splits)

lemma managerOk_lifecycle: "managerOk s \<Longrightarrow> managerOk (frameLifecycleEvent s fid event)"
  by (auto simp: frameLifecycleEvent_def intro!: managerOk_onTree treeOk_onLifecycleEvent
        split: option.splits)

lemma committed_inflightRequestStarted: "committed f \<Longrightarrow> committed (inflightRequestStarted q f)"
  by (simp add: inflightRequestStarted_def committed_def stopNetworkIdleTimer_def Let_def)

lemma committed_inflightRequestFinished: "committed f \<Longrightarrow> committed (fst (inflightRequestFinished q f))"
  by (auto simp: inflightRequestFinished_def committed_def startNetworkIdleTimer_def Let_def
        split: sum.splits)

lemma managerOk_requestStarted: "managerOk s \<Longrightarrow> managerOk (requestStarted s q)"
  by (auto simp: requestStarted_def Let_def setPendingDocument_def committed_inflightRequestStarted
        intro!: managerOk_update split: option.splits)
     (simp add: committed_def)

lemma managerOk_requestFinished:
  assumes "managerOk s"
  shows "managerOk (fst (reportRequestFinished s q))"
proof (cases "frameByRef s (request_frame q)")
  case None
  then show ?thesis using assms by (simp add: reportRequestFinished_def)
next
  case (Some f)
  have "committed f" using assms Some by (rule managerOk_frameByRef)
  then have "committed (fst (inflightRequestFinished q f))"
    by (rule committed_inflightRequestFinished)
  then have "managerOk (onTree (updateFrame (frameRef f) (\<lambda>_. fst (inflightRequestFinished q f))) s)"
    using assms by (intro managerOk_update) simp_all
  then show ?thesis using Some by (simp add: reportRequestFinished_def)
qed

lemma managerOk_requestFailed:
  assumes "managerOk s"
  shows "managerOk (fst (requestFailed s q x))"
proof (cases "frameByRef s (request_frame q)")
  case None
  then show ?thesis using assms by (simp add: requestFailed_def)
next
  case (Some f)
  define s1 where "s1 = onTree (updateFrame (frameRef f) (\<lambda>_. fst (inflightRequestFinished q f))) s"
  have "committed f" using assms Some by (rule managerOk_frameByRef)
  then have "committed (fst (inflightRequestFinished q f))"
    by (rule committed_inflightRequestFinished)
  then have ok1: "managerOk s1"
    unfolding s1_def using assms by (intro managerOk_update) simp_all
  then have "managerOk (frameAbortedNavigation s1 fid' x d')" for fid' d'
    by (rule managerOk_aborted)
  then show ?thesis using Some ok1
    by (simp add: requestFailed_def Let_def s1_def[symmetric] split: option.splits)
qed

lemma managerOk_timer: "managerOk s \<Longrightarrow> managerOk (networkIdleTimerFired s r)"
  by (auto simp: networkIdleTimerFired_def committed_def
        intro!: managerOk_onTree treeOk_updateFrame split: option.splits)

lemma managerOk_setContext: "managerOk s \<Longrightarrow> managerOk (setContext r w c s)"
proof -
  assume ok: "managerOk s"
  have a: "managerOk (onTree (updateFrame r (\<lambda>g. g\<lparr>contextData := h g\<rparr>)) s)" for h
    using ok by (auto intro!: managerOk_update simp: committed_def)
  have b: "managerOk (s'\<lparr>nextRef := k\<rparr>) = managerOk s'" for s' k
    by (simp add: managerOk_def)
  show ?thesis
    using ok a by (auto simp: setContext_def b split: option.splits)
qed

lemma managerOk_contextCreated: "managerOk s \<Longrightarrow> managerOk (contextCreated r w c s)"
  by (auto simp: contextCreated_def intro!: managerOk_setContext split: option.splits)

lemma managerOk_frameContextDestroyed: "managerOk s \<Longrightarrow> managerOk (frameContextDestroyed r c s)"
  by (auto simp: frameContextDestroyed_def intro!: managerOk_setContext split: option.splits)

lemma nodes_mapFrames: "nodes (mapFrames g t) = map (mapFrames g) (nodes t)"
  by (induction g t rule: mapFrames.induct) (simp add: map_concat comp_def cong: map_cong)

lemma frameOf_mapFrames: "frameOf (mapFrames g n) = g (frameOf n)"
  by (cases n) simp

lemma managerOk_dispose: "managerOk s \<Longrightarrow> managerOk (dispose s)"
  unfolding dispose_def
  by (rule managerOk_onTree)
     (auto simp: treeOk_def nodes_mapFrames frameOf_mapFrames committed_def stopNetworkIdleTimer_def)

lemma reachable_managerOk: "reachable s \<Longrightarrow> managerOk s"
proof (induction rule: reachable.induct)
  case r_init
  show ?case by (simp add: managerOk_def initialManager_def)
next
  case (r_dummy s)
  then show ?case by (simp add: createDummyMainFrameIfNeeded_def managerOk_frameAttached)
next
  case (r_recalculated s a)
  then show ?case by (auto intro!: managerOk_onTree)
next
  case (r_disposed s)
  then show ?case by (simp add: managerOk_dispose)
next
  case (r_page_closed s)
  then show ?case by (simp add: managerOk_def)
next
  case (r_web_socket s ws)
  then show ?case by (simp add: managerOk_def)
next
  case (r_redirect s r ds)
  then show ?case by (auto intro!: managerOk_update simp: committed_def)
qed (simp_all add: managerOk_frameAttached managerOk_frameDetached managerOk_frameRequestedNavigation
       managerOk_committed managerOk_sameDocument managerOk_aborted managerOk_lifecycle
       managerOk_requestStarted managerOk_requestFinished managerOk_requestFailed managerOk_timer
       managerOk_clearLifecycle managerOk_contextCreated managerOk_frameContextDestroyed)

text \<open>
  Claim C10. In every reachable state of the manager, every frame of the tree under the
  main frame has \<open>commit\<close> among its fired lifecycle events, so \<^verbatim>\<open>_waitForLoadState\<close> for
  \<open>commit\<close> returns without waiting. The constructor fires it, a lifecycle clear fires it
  again as its last step (the timer assertion in between cannot fail, since the timer was
  just stopped), and the recalculation of network idle only ever adds or removes
  \<open>networkidle\<close>.
\<close>

theorem C10_commit_always_fired:
  assumes "reachable s"
  shows "list_all (\<lambda>f. waitForLoadStateImmediate f commit) (liveFrames s)"
  using reachable_managerOk[OF assms]
  by (auto simp: managerOk_def liveFrames_def treeOk_def committed_def waitForLoadStateImmediate_def
        list_all_iff split: option.splits)

lemma reachable_committedExample: "reachable committedExample"
  unfolding committedExample_def pendingExample_def
  by (intro reachable.intros)

lemma liveFrames_committedExample: "map frameId (liveFrames committedExample) = [''F'']"
  by code_simp

theorem C10_commit_always_fired_witness:
  "reachable committedExample
   \<and> list_all (\<lambda>f. waitForLoadStateImmediate f commit) (liveFrames committedExample)
   \<and> map frameId (liveFrames committedExample) = [''F'']"
  using C10_commit_always_fired[OF reachable_committedExample] reachable_committedExample
    liveFrames_committedExample
  by simp


section \<open>Claims about network idle\<close>

lemma nodes_self: "t \<in> set (nodes t)"
  by (cases t) simp

lemma nodes_trans: "n \<in> set (nodes t) \<Longrightarrow> set (nodes n) \<subseteq> set (nodes t)"
proof (induction t rule: nodes.induct)
  case (1 f cs)
  show ?case
  proof (cases "n = FrameNode f cs")
    case True
    then show ?thesis by simp
  next
    case False
    then obtain c where c: "c \<in> set cs" "n \<in> set (nodes c)" using 1(2) by auto
    then have "set (nodes n) \<subseteq> set (nodes c)" using 1(1) by blast
    then show ?thesis using c(1) by auto
  qed
qed

lemma recalc_None_local: "\<forall>n \<in> set (nodes (recalculateNetworkIdle None t)). localConsistent n"
proof (induction "None :: nat option" t rule: recalculateNetworkIdle.induct)
  case (1 f cs)
  have kids: "\<forall>n \<in> set (concat (map nodes (map (recalculateNetworkIdle None) cs))). localConsistent n"
    using 1 by auto
  define cs' where "cs' = map (recalculateNetworkIdle None) cs"
  define idle where "idle \<longleftrightarrow> firedNetworkIdleSelf f \<and> list_all hasNetworkIdle cs'"
  have idle': "(firedNetworkIdleSelf f
       \<and> list_all (\<lambda>child. networkidle \<in> firedLifecycleEvents (frameOf child)) cs') = idle"
    by (simp add: idle_def list_all_iff hasNetworkIdle_def)
  have shape: "recalculateNetworkIdle None (FrameNode f cs) =
      FrameNode (f\<lparr>firedLifecycleEvents :=
         (if idle then insert networkidle (firedLifecycleEvents f)
          else firedLifecycleEvents f - {networkidle})\<rparr>) cs'"
    unfolding recalculateNetworkIdle.simps Let_def cs'_def[symmetric] idle'
    by (cases idle) (auto simp: insert_absorb)
  have root: "localConsistent (recalculateNetworkIdle None (FrameNode f cs))"
    unfolding shape by (simp add: localConsistent_def hasNetworkIdle_def idle_def)
  have "nodes (recalculateNetworkIdle None (FrameNode f cs)) =
          recalculateNetworkIdle None (FrameNode f cs)
          # concat (map nodes (map (recalculateNetworkIdle None) cs))"
    by (simp add: Let_def)
  then show ?case using kids root by (simp del: recalculateNetworkIdle.simps)
qed

lemma local_all_self:
  "\<forall>n \<in> set (nodes t). localConsistent n \<Longrightarrow>
     hasNetworkIdle t \<longleftrightarrow> (\<forall>m \<in> set (nodes t). firedNetworkIdleSelf (frameOf m))"
proof (induction t rule: nodes.induct)
  case (1 f cs)
  have kids: "hasNetworkIdle c \<longleftrightarrow> (\<forall>m \<in> set (nodes c). firedNetworkIdleSelf (frameOf m))"
    if "c \<in> set cs" for c
    using 1 that by auto
  have "localConsistent (FrameNode f cs)" using 1(2) by simp
  then have "hasNetworkIdle (FrameNode f cs) \<longleftrightarrow>
      firedNetworkIdleSelf f \<and> (\<forall>c \<in> set cs. hasNetworkIdle c)"
    by (simp add: localConsistent_def list_all_iff)
  with kids show ?case by auto
qed


lemma local_imp_consistent:
  assumes "\<forall>n \<in> set (nodes t). localConsistent n"
  shows "\<forall>n \<in> set (nodes t). networkIdleConsistent n"
proof
  fix n assume n: "n \<in> set (nodes t)"
  have sub: "set (nodes n) \<subseteq> set (nodes t)" using n by (rule nodes_trans)
  have loc: "\<forall>m \<in> set (nodes n). localConsistent m" using assms sub by auto
  have ds: "set (descendants n) \<subseteq> set (nodes n)"
    by (cases n) (auto simp: descendants_def)
  have kids: "set (childFrames n) \<subseteq> set (descendants n)"
    by (cases n) (auto simp: descendants_def intro: nodes_self)
  show "networkIdleConsistent n"
  proof (cases "hasNetworkIdle n")
    case True
    then have all: "\<forall>m \<in> set (nodes n). firedNetworkIdleSelf (frameOf m)"
      using local_all_self[OF loc] by simp
    have "hasNetworkIdle d" if "d \<in> set (descendants n)" for d
    proof -
      have "d \<in> set (nodes n)" using that ds by auto
      then have sd: "set (nodes d) \<subseteq> set (nodes n)" by (rule nodes_trans)
      then have "\<forall>m \<in> set (nodes d). localConsistent m" using loc by auto
      from local_all_self[OF this] all sd show ?thesis by auto
    qed
    moreover have "firedNetworkIdleSelf (frameOf n)" using all nodes_self by blast
    ultimately show ?thesis using True by (simp add: networkIdleConsistent_def list_all_iff)
  next
    case False
    have "localConsistent n" using loc nodes_self by blast
    then have "\<not> (firedNetworkIdleSelf (frameOf n) \<and> list_all hasNetworkIdle (childFrames n))"
      using False by (simp add: localConsistent_def)
    then have "\<not> (firedNetworkIdleSelf (frameOf n) \<and> list_all hasNetworkIdle (descendants n))"
      using kids by (auto simp: list_all_iff)
    then show ?thesis using False by (simp add: networkIdleConsistent_def)
  qed
qed

lemma treeLocal_recalc_None [simp]: "treeLocal (recalculateNetworkIdle None t)"
  by (simp add: treeLocal_def recalc_None_local)

lemma childFrames_updateFrame:
  "childFrames (updateFrame r g n) = map (updateFrame r g) (childFrames n)"
  by (cases n) simp

lemma localConsistent_updateFrame:
  assumes "\<And>f. firedLifecycleEvents (g f) = firedLifecycleEvents f"
    and "\<And>f. firedNetworkIdleSelf (g f) = firedNetworkIdleSelf f"
  shows "localConsistent (updateFrame r g n) = localConsistent n"
  using assms
  by (simp add: localConsistent_def hasNetworkIdle_def frameOf_updateFrame childFrames_updateFrame
        list_all_iff)

lemma treeLocal_updateFrame:
  assumes "\<And>f. firedLifecycleEvents (g f) = firedLifecycleEvents f"
    and "\<And>f. firedNetworkIdleSelf (g f) = firedNetworkIdleSelf f"
  shows "treeLocal (updateFrame r g t) = treeLocal t"
  using assms by (simp add: treeLocal_def nodes_updateFrame localConsistent_updateFrame)

lemma firedSelf_recalc [simp]:
  "firedNetworkIdleSelf (frameOf (recalculateNetworkIdle a n)) = firedNetworkIdleSelf (frameOf n)"
  by (cases n) (simp add: Let_def)

lemma selfOff_recalc [simp]: "selfOff r (recalculateNetworkIdle a t) = selfOff r t"
  by (simp add: selfOff_def nodes_recalc)

lemma selfOff_updateFrame:
  assumes "selfOff r t"
    and "\<And>f. firedNetworkIdleSelf (g f) = firedNetworkIdleSelf f \<and> frameRef (g f) = frameRef f"
  shows "selfOff r (updateFrame r' g t)"
  using assms by (auto simp: selfOff_def nodes_updateFrame frameOf_updateFrame)

lemma selfOff_install:
  assumes "\<not> firedNetworkIdleSelf f'"
  shows "selfOff r (updateFrame r (\<lambda>_. f') t)"
  using assms by (auto simp: selfOff_def nodes_updateFrame frameOf_updateFrame)

lemma treeLocal_consistent: "treeLocal t \<Longrightarrow> list_all networkIdleConsistent (nodes t)"
  using local_imp_consistent[of t] by (simp add: treeLocal_def list_all_iff)

lemma treeLocal_retracted:
  assumes "treeLocal t" and "selfOff r t"
  shows "list_all (\<lambda>n. r \<in> set (map (\<lambda>m. frameRef (frameOf m)) (nodes n)) \<longrightarrow> \<not> hasNetworkIdle n)
           (nodes t)"
  unfolding list_all_iff
proof (intro ballI impI)
  fix n assume n: "n \<in> set (nodes t)"
    and r: "r \<in> set (map (\<lambda>m. frameRef (frameOf m)) (nodes n))"
  from r obtain m where m: "m \<in> set (nodes n)" "frameRef (frameOf m) = r" by auto
  have sub: "set (nodes n) \<subseteq> set (nodes t)" using n by (rule nodes_trans)
  then have off: "\<not> firedNetworkIdleSelf (frameOf m)" using assms(2) m by (auto simp: selfOff_def)
  have "\<forall>k \<in> set (nodes n). localConsistent k" using assms(1) sub by (auto simp: treeLocal_def)
  from local_all_self[OF this] off m(1) show "\<not> hasNetworkIdle n" by blast
qed

lemma onClearLifecycle_shape:
  assumes "findNode r t = Some n"
  obtains f' where "clearLifecycleSelf (frameOf n) = Inr f'" and "\<not> firedNetworkIdleSelf f'"
    and "onClearLifecycle r t =
       Inr (recalculateNetworkIdle None
              (updateFrame r (\<lambda>g. g\<lparr>firedLifecycleEvents := insert commit (firedLifecycleEvents g)\<rparr>)
                 (recalculateNetworkIdle (Some r) (updateFrame r (\<lambda>_. f') t))))"
proof -
  from clearLifecycleSelf_Inr[of "frameOf n"] obtain f' where
    f': "clearLifecycleSelf (frameOf n) = Inr f'" "frameRef f' = frameRef (frameOf n)"
      "firedLifecycleEvents f' = {}" "\<not> firedNetworkIdleSelf f'"
    by blast
  have rn: "frameRef (frameOf n) = r" using assms by (rule findNode_ref)
  define t2 where "t2 = recalculateNetworkIdle (Some r) (updateFrame r (\<lambda>_. f') t)"
  have "\<not> committed f'" using f'(3) by (simp add: committed_def)
  then have selfs: "\<forall>m \<in> set (nodes t2). frameRef (frameOf m) = r \<longrightarrow> \<not> committed (frameOf m)"
    by (auto simp: t2_def nodes_recalc nodes_updateFrame frameOf_updateFrame)
  have "findNode r t2 = map_option (recalculateNetworkIdle (Some r))
          (map_option (updateFrame r (\<lambda>_. f')) (findNode r t))"
    using f'(2) rn by (simp add: t2_def findNode_recalc findNode_updateFrame)
  then obtain m where m: "findNode r t2 = Some m" using assms by simp
  then have "m \<in> set (nodes t2)" "frameRef (frameOf m) = r"
    by (auto simp: findNode_def find_Some_iff)
  with selfs have nm: "commit \<notin> firedLifecycleEvents (frameOf m)" by (auto simp: committed_def)
  have "onClearLifecycle r t = Inr (onLifecycleEvent r commit t2)"
    using assms f'(1) by (simp add: onClearLifecycle_def t2_def)
  then have "onClearLifecycle r t =
       Inr (recalculateNetworkIdle None
              (updateFrame r (\<lambda>g. g\<lparr>firedLifecycleEvents := insert commit (firedLifecycleEvents g)\<rparr>) t2))"
    using m nm by (simp add: onLifecycleEvent_def)
  then show ?thesis using that f'(1) f'(4) by (simp add: t2_def)
qed

lemma consistent_after_recalc:
  "managerIdleConsistent (onTree (\<lambda>t. recalculateNetworkIdle None (h t)) s)"
  by (simp add: managerIdleConsistent_def treeLocal_consistent split: option.splits)

lemma commit_tree:
  assumes fr: "frame s fid = Some f"
  obtains t' where "mainFrame (fst (frameCommittedNewDocumentNavigation s fid u nm d initial)) = Some t'"
    and "treeLocal t'" and "selfOff (frameRef f) t'"
proof -
  from fr obtain n where n: "frameNode s fid = Some n" "frameOf n = f"
    by (auto simp: frame_def)
  from n(1) obtain t where t: "mainFrame s = Some t" "frameAt (frameRef f) t = Some f"
    using n(2) by (auto elim: frameNode_Some)
  define r where "r = frameRef f"
  define cd where "cd = commitDocument d (f\<lparr>frameUrl := u, frameName := nm\<rparr>)"
  define fc where "fc = fst cd"
  have fc: "frameRef fc = r"
    by (auto simp: fc_def cd_def r_def commitDocument_def setPendingDocument_def Let_def
          split: option.splits)
  define s3 where "s3 = onTree (updateFrame r (\<lambda>_. fc))
      (clearWebSockets r (onTree (clearChildren r) (removeChildFramesRecursively n s)))"
  define t3 where "t3 = updateFrame r (\<lambda>_. fc) (clearChildren r t)"
  have m3: "mainFrame s3 = Some t3"
    by (simp add: s3_def t3_def t(1))
  have a3: "frameAt r t3 = Some fc"
    using t(2) fc by (simp add: t3_def frameAt_updateFrame frameAt_clearChildren r_def)
  then obtain n3 where n3: "findNode r t3 = Some n3" by (auto simp: frameAt_def)
  from onClearLifecycle_shape[OF n3] obtain f' where f': "\<not> firedNetworkIdleSelf f'"
    and sh: "onClearLifecycle r t3 =
       Inr (recalculateNetworkIdle None
              (updateFrame r (\<lambda>g. g\<lparr>firedLifecycleEvents := insert commit (firedLifecycleEvents g)\<rparr>)
                 (recalculateNetworkIdle (Some r) (updateFrame r (\<lambda>_. f') t3))))"
    by blast
  define t4 where "t4 = recalculateNetworkIdle None
              (updateFrame r (\<lambda>g. g\<lparr>firedLifecycleEvents := insert commit (firedLifecycleEvents g)\<rparr>)
                 (recalculateNetworkIdle (Some r) (updateFrame r (\<lambda>_. f') t3)))"
  have cl: "clearLifecycle r s3 = (s3\<lparr>mainFrame := Some t4\<rparr>, None)"
    using m3 sh by (simp add: clearLifecycle_def t4_def)
  have res: "mainFrame (fst (frameCommittedNewDocumentNavigation s fid u nm d initial)) =
      Some (updateFrame r (setPendingDocument (snd cd)) t4)"
    using n cl
    by (simp add: frameCommittedNewDocumentNavigation_def Let_def r_def[symmetric] cd_def[symmetric]
          fc_def[symmetric] s3_def[symmetric])
  have loc: "treeLocal (updateFrame r (setPendingDocument (snd cd)) t4)"
    by (simp add: treeLocal_updateFrame setPendingDocument_def t4_def)
  have "selfOff r (updateFrame r (\<lambda>_. f') t3)" using f' by (rule selfOff_install)
  then have "selfOff r t4"
    unfolding t4_def by (simp add: selfOff_updateFrame)
  then have off: "selfOff r (updateFrame r (setPendingDocument (snd cd)) t4)"
    by (rule selfOff_updateFrame) (simp add: setPendingDocument_def)
  show ?thesis using that res loc off by (simp add: r_def)
qed

text \<open>
  Claim C3, as the code has it. Four event applications end with a recalculation of the
  whole tree that exempts no frame: the detaching of a registered frame, a lifecycle event
  that a frame fires for the first time, an armed idle timer firing, and the commit of a new
  document. Right after each of them, every frame of the tree holds \<open>networkidle\<close> exactly
  if its own quiet-window flag has fired and every descendant holds \<open>networkidle\<close>. After
  the commit of a new document, moreover, the committing frame and every ancestor of it do
  not hold \<open>networkidle\<close>: the retraction reaches the ancestors, and a sibling keeps
  \<open>networkidle\<close> only as far as the equivalence lets it.
\<close>

theorem C3_network_idle_after_recalculation:
  assumes fr: "frame s fid = Some f"
  shows "managerIdleConsistent (frameDetached s fid)
       \<and> (event \<notin> firedLifecycleEvents f \<longrightarrow> managerIdleConsistent (frameLifecycleEvent s fid event))
       \<and> (networkIdleTimer f = Armed \<longrightarrow> managerIdleConsistent (networkIdleTimerFired s (frameRef f)))
       \<and> managerIdleConsistent (fst (frameCommittedNewDocumentNavigation s fid u nm d initial))
       \<and> retractedAbove (frameRef f) (fst (frameCommittedNewDocumentNavigation s fid u nm d initial))"
proof -
  from fr obtain n where n: "frameNode s fid = Some n" "frameOf n = f"
    by (auto simp: frame_def)
  from fr obtain t where t: "mainFrame s = Some t" "frameAt (frameRef f) t = Some f"
      "frameByRef s (frameRef f) = Some f"
    by (rule frame_Some)
  from t(2) obtain n' where n': "findNode (frameRef f) t = Some n'" "frameOf n' = f"
    by (auto simp: frameAt_def)
  have detached: "managerIdleConsistent (frameDetached s fid)"
    using n(1) by (simp add: frameDetached_def consistent_after_recalc)
  have lifecycle: "managerIdleConsistent (frameLifecycleEvent s fid event)"
    if "event \<notin> firedLifecycleEvents f"
  proof -
    have "onLifecycleEvent (frameRef f) event t = recalculateNetworkIdle None
        (updateFrame (frameRef f) (\<lambda>g. g\<lparr>firedLifecycleEvents := insert event (firedLifecycleEvents g)\<rparr>) t)"
      using n' that by (simp add: onLifecycleEvent_def)
    then show ?thesis
      using fr t(1)
      by (simp add: frameLifecycleEvent_def managerIdleConsistent_def onTree_def treeLocal_consistent)
  qed
  have timer: "managerIdleConsistent (networkIdleTimerFired s (frameRef f))"
    if "networkIdleTimer f = Armed"
    using t(3) that by (simp add: networkIdleTimerFired_def consistent_after_recalc)
  from commit_tree[OF fr, of u nm d initial] obtain t' where
    t': "mainFrame (fst (frameCommittedNewDocumentNavigation s fid u nm d initial)) = Some t'"
      "treeLocal t'" "selfOff (frameRef f) t'"
    by blast
  have c1: "managerIdleConsistent (fst (frameCommittedNewDocumentNavigation s fid u nm d initial))"
    using t'(1,2) by (simp add: managerIdleConsistent_def treeLocal_consistent)
  have c2: "retractedAbove (frameRef f) (fst (frameCommittedNewDocumentNavigation s fid u nm d initial))"
    using t'(1) treeLocal_retracted[OF t'(2,3)] by (simp add: retractedAbove_def)
  show ?thesis using detached lifecycle timer c1 c2 by blast
qed

lemma attachedExample_child:
  "map_option (\<lambda>f. (frameRef f, networkIdleTimer f)) (frame attachedExample ''C'') = Some (5, Armed)"
  by code_simp

lemma idleExample_child:
  "map_option (\<lambda>f. (frameRef f, load \<in> firedLifecycleEvents f)) (frame idleExample ''C'')
     = Some (5, False)"
  by code_simp

lemma idleExample_committed:
  "idleSummary (fst (frameCommittedNewDocumentNavigation idleExample ''C'' ''http://b'' [] ''B'' False))
     = [(''M'', False, True), (''C'', False, False)]"
  by code_simp

theorem C3_network_idle_witness:
  "managerIdleConsistent (frameDetached idleExample ''C'')
   \<and> managerIdleConsistent (frameLifecycleEvent idleExample ''C'' load)
   \<and> managerIdleConsistent (networkIdleTimerFired attachedExample 5)
   \<and> managerIdleConsistent
        (fst (frameCommittedNewDocumentNavigation idleExample ''C'' ''http://b'' [] ''B'' False))
   \<and> retractedAbove 5
        (fst (frameCommittedNewDocumentNavigation idleExample ''C'' ''http://b'' [] ''B'' False))
   \<and> idleSummary
        (fst (frameCommittedNewDocumentNavigation idleExample ''C'' ''http://b'' [] ''B'' False))
       = [(''M'', False, True), (''C'', False, False)]"
proof -
  from idleExample_child obtain f where f: "frame idleExample ''C'' = Some f" "frameRef f = 5"
      "load \<notin> firedLifecycleEvents f"
    by auto
  from attachedExample_child obtain g where g: "frame attachedExample ''C'' = Some g"
      "frameRef g = 5" "networkIdleTimer g = Armed"
    by auto
  show ?thesis
    using C3_network_idle_after_recalculation[OF f(1), of load "''http://b''" "[]" "''B''" False]
      C3_network_idle_after_recalculation[OF g(1), of load "''http://b''" "[]" "''B''" False]
      f(2,3) g(2,3) idleExample_committed
    by simp
qed

text \<open>
  The claim as stated fails in both halves. In \<open>idleExample\<close> the main frame \<open>M\<close> and its
  child \<open>C\<close> both hold \<open>networkidle\<close>. When \<open>C\<close> commits a new document, \<open>networkidle\<close> is
  retracted from \<open>C\<close> and also from its ancestor \<open>M\<close>, whose own flag is still set. And
  when a request starts in \<open>C\<close> instead, \<open>C\<close> goes on holding \<open>networkidle\<close> although its
  flag is off: that event application recalculates nothing.
\<close>

theorem C3_network_idle_counterexample:
  "idleSummary idleExample = [(''M'', True, True), (''C'', True, True)]
   \<and> idleSummary
        (fst (frameCommittedNewDocumentNavigation idleExample ''C'' ''http://b'' [] ''B'' False))
       = [(''M'', False, True), (''C'', False, False)]
   \<and> idleSummary (requestStarted idleExample xhrRequest)
       = [(''M'', True, True), (''C'', True, False)]"
  by code_simp

section \<open>Claims about detached frames\<close>

lemma removeFramesRecursively_detachFrame:
  "removeFramesRecursively (FrameNode f cs) s = detachFrame f (fold removeFramesRecursively cs s)"
  by (simp add: detachFrame_def Let_def)

lemma fold_concat_map: "fold h (concat (map k xs)) s = fold (\<lambda>x. fold h (k x)) xs s"
  by (induction xs arbitrary: s) auto

lemma removeFramesRecursively_postorder:
  "removeFramesRecursively n s = fold (\<lambda>g. detachFrame (frameOf g)) (postorder n) s"
proof (induction n s rule: removeFramesRecursively.induct)
  case (1 f cs s)
  have "fold removeFramesRecursively cs s0 =
          fold (\<lambda>c. fold (\<lambda>g. detachFrame (frameOf g)) (postorder c)) cs s0" for s0
    using 1 by (intro fold_cong) auto
  then show ?case
    by (simp only: removeFramesRecursively_detachFrame postorder.simps fold_append fold_concat_map
          comp_def fold_simps FrameNode.sel)
qed


lemma settles_refl: "settles s s"
  by (simp add: settles_def)

lemma settles_trans: "settles a b \<Longrightarrow> settles b c \<Longrightarrow> settles a c"
  unfolding settles_def by (metis append.assoc)

lemma settles_slot:
  "settles s (resolvePromise p (destroyedReason kFrameDetached)
               (case a of Some c \<Rightarrow> contextDestroyed c kFrameDetached s | None \<Rightarrow> s))"
  by (cases a) (auto simp: settles_def resolvePromise_def contextDestroyed_def)

lemma slot_settled:
  "promises (resolvePromise p v s) p \<noteq> None"
  by (simp add: resolvePromise_def)

lemma slot_called:
  "a = Some c \<Longrightarrow>
   (c, kFrameDetached) \<in> set (contextDestroyedCalls (resolvePromise p v
        (case a of Some c \<Rightarrow> contextDestroyed c kFrameDetached s | None \<Rightarrow> s)))"
  by (simp add: resolvePromise_def contextDestroyed_def)

lemma settles_keeps_settled: "settles s s' \<Longrightarrow> promises s p \<noteq> None \<Longrightarrow> promises s' p \<noteq> None"
  by (auto simp: settles_def)

lemma settles_keeps_calls:
  "settles s s' \<Longrightarrow> x \<in> set (contextDestroyedCalls s) \<Longrightarrow> x \<in> set (contextDestroyedCalls s')"
  by (auto simp: settles_def)

lemma onDetachedContexts_settles:
  "settles s (onDetachedContexts f s)
   \<and> (\<forall>world. promises (onDetachedContexts f s) (contextPromise (contextData f world)) \<noteq> None)
   \<and> (\<forall>world c. activeContext (contextData f world) = Some c \<longrightarrow>
         (c, kFrameDetached) \<in> set (contextDestroyedCalls (onDetachedContexts f s)))"
proof -
  define slot where "slot = (\<lambda>world s'.
             resolvePromise (contextPromise (contextData f world)) (destroyedReason kFrameDetached)
               (case activeContext (contextData f world) of
                  Some c \<Rightarrow> contextDestroyed c kFrameDetached s'
                | None \<Rightarrow> s'))"
  have st: "settles s0 (slot w s0)" for w s0 unfolding slot_def by (rule settles_slot)
  have se: "promises (slot w s0) (contextPromise (contextData f w)) \<noteq> None" for w s0
    unfolding slot_def by (rule slot_settled)
  have sc: "activeContext (contextData f w) = Some c \<Longrightarrow>
      (c, kFrameDetached) \<in> set (contextDestroyedCalls (slot w s0))" for w c s0
    unfolding slot_def by (rule slot_called)
  have eq: "onDetachedContexts f s = slot utility (slot main s)"
    by (simp add: onDetachedContexts_def slot_def)
  have a: "settles s (slot utility (slot main s))"
    using st settles_trans by blast
  have b: "promises (slot utility (slot main s)) (contextPromise (contextData f world)) \<noteq> None" for world
  proof (cases world)
    case main
    then show ?thesis using se[of main s] st[of "slot main s" utility] settles_keeps_settled by blast
  next
    case utility
    then show ?thesis using se[of utility "slot main s"] by simp
  qed
  have c: "(c, kFrameDetached) \<in> set (contextDestroyedCalls (slot utility (slot main s)))"
    if "activeContext (contextData f world) = Some c" for world c
  proof (cases world)
    case main
    then show ?thesis using sc[of main c s] that st[of "slot main s" utility] settles_keeps_calls by blast
  next
    case utility
    then show ?thesis using sc[of utility c "slot main s"] that by simp
  qed
  show ?thesis unfolding eq using a b c by blast
qed

lemma detachFrame_facts:
  "settles s (detachFrame f s)
   \<and> (\<forall>world. promises (detachFrame f s) (contextPromise (contextData f world)) \<noteq> None)
   \<and> (\<forall>world c. activeContext (contextData f world) = Some c \<longrightarrow>
         (c, kFrameDetached) \<in> set (contextDestroyedCalls (detachFrame f s)))"
proof -
  have p: "promises (detachFrame f s) = promises (onDetachedContexts f s)"
    and c: "contextDestroyedCalls (detachFrame f s) = contextDestroyedCalls (onDetachedContexts f s)"
    and q: "pageClosed (detachFrame f s) = pageClosed (onDetachedContexts f s)"
    by (simp_all add: detachFrame_def Let_def emit_def)
  have "settles (onDetachedContexts f s) (detachFrame f s)"
    by (simp add: settles_def p c q)
  then show ?thesis
    using onDetachedContexts_settles[of s f] settles_trans p c by auto
qed


lemma onDetachedContexts_other [simp]:
  "frames (onDetachedContexts f s) = frames s"
  "emitted (onDetachedContexts f s) = emitted s"
  "pageClosed (onDetachedContexts f s) = pageClosed s"
  by (auto simp: onDetachedContexts_def resolvePromise_def contextDestroyed_def split: option.splits)

lemma detachFrame_other:
  "frames (detachFrame f s) = (frames s)(frameId f := None)"
  "emitted (detachFrame f s) =
     (if pageClosed s then emitted s else emitted s @ [PageFrameDetached (frameRef f)])"
  "pageClosed (detachFrame f s) = pageClosed s"
  by (simp_all add: detachFrame_def Let_def emit_def)

lemma fold_detach_settles:
  "settles s (fold (\<lambda>g. detachFrame (frameOf g)) gs s)
   \<and> (\<forall>g \<in> set gs. \<forall>world.
         promises (fold (\<lambda>g. detachFrame (frameOf g)) gs s) (contextPromise (contextData (frameOf g) world)) \<noteq> None)
   \<and> (\<forall>g \<in> set gs. \<forall>world c. activeContext (contextData (frameOf g) world) = Some c \<longrightarrow>
         (c, kFrameDetached) \<in> set (contextDestroyedCalls (fold (\<lambda>g. detachFrame (frameOf g)) gs s)))"
proof (induction gs arbitrary: s)
  case Nil
  show ?case by (simp add: settles_refl)
next
  case (Cons g gs)
  define s1 where "s1 = detachFrame (frameOf g) s"
  define s2 where "s2 = fold (\<lambda>g. detachFrame (frameOf g)) gs s1"
  have f1: "settles s s1"
      "\<forall>world. promises s1 (contextPromise (contextData (frameOf g) world)) \<noteq> None"
      "\<forall>world c. activeContext (contextData (frameOf g) world) = Some c \<longrightarrow>
         (c, kFrameDetached) \<in> set (contextDestroyedCalls s1)"
    using detachFrame_facts[of s "frameOf g"] by (simp_all add: s1_def)
  have f2: "settles s1 s2"
      "\<forall>h \<in> set gs. \<forall>world. promises s2 (contextPromise (contextData (frameOf h) world)) \<noteq> None"
      "\<forall>h \<in> set gs. \<forall>world c. activeContext (contextData (frameOf h) world) = Some c \<longrightarrow>
         (c, kFrameDetached) \<in> set (contextDestroyedCalls s2)"
    using Cons.IH[of s1] by (simp_all add: s2_def)
  have a: "settles s s2" using f1(1) f2(1) by (rule settles_trans)
  have b: "\<forall>world. promises s2 (contextPromise (contextData (frameOf g) world)) \<noteq> None"
    using f1(2) f2(1) settles_keeps_settled by blast
  have c: "\<forall>world c. activeContext (contextData (frameOf g) world) = Some c \<longrightarrow>
         (c, kFrameDetached) \<in> set (contextDestroyedCalls s2)"
    using f1(3) f2(1) settles_keeps_calls by blast
  have "fold (\<lambda>g. detachFrame (frameOf g)) (g # gs) s = s2" by (simp add: s2_def s1_def)
  then show ?case using a b c f2(2,3) by simp
qed

lemma fold_detach_frames:
  "frames (fold (\<lambda>g. detachFrame (frameOf g)) gs s) k =
     (if k \<in> set (map (\<lambda>g. frameId (frameOf g)) gs) then None else frames s k)"
  by (induction gs arbitrary: s) (auto simp: detachFrame_other)

lemma fold_detach_pageClosed [simp]:
  "pageClosed (fold (\<lambda>g. detachFrame (frameOf g)) gs s) = pageClosed s"
  by (induction gs arbitrary: s) (auto simp: detachFrame_other)

lemma fold_detach_emitted:
  "emitted (fold (\<lambda>g. detachFrame (frameOf g)) gs s) =
     (if pageClosed s then emitted s
      else emitted s @ map (\<lambda>g. PageFrameDetached (frameRef (frameOf g))) gs)"
  by (induction gs arbitrary: s) (auto simp: detachFrame_other)

lemma set_postorder: "set (postorder n) = set (nodes n)"
  by (induction n rule: postorder.induct) auto

lemma onTree_other [simp]:
  "frames (onTree G s) = frames s"
  "emitted (onTree G s) = emitted s"
  "promises (onTree G s) = promises s"
  "contextDestroyedCalls (onTree G s) = contextDestroyedCalls s"
  "pageClosed (onTree G s) = pageClosed s"
  by (simp_all add: onTree_def)

text \<open>
  Claim C9. A call of \<^verbatim>\<open>frameDetached\<close> for a registered frame acts on the manager as the
  frame-by-frame removal of the subtree in post-order, children first, followed by the
  cut of the tree and the recalculation of network idle. Afterwards no frame of the
  subtree is registered under its id any more; unless the page is closed, the page has
  seen one detach event per frame, in that order; and in both worlds of every frame of the
  subtree the context promise is settled: one that was pending is rejected for its
  consumers with the reason "Frame was detached", and an active context has been destroyed
  with that reason.
\<close>

theorem C9_frame_detached:
  assumes "frameNode s fid = Some n"
  shows "frameDetached s fid =
           onTree (\<lambda>t. recalculateNetworkIdle None (cutNode (frameRef (frameOf n)) t))
             (fold (\<lambda>g. detachFrame (frameOf g)) (postorder n) s)
       \<and> (\<forall>g \<in> set (nodes n). frames (frameDetached s fid) (frameId (frameOf g)) = None)
       \<and> (\<not> pageClosed s \<longrightarrow>
            emitted (frameDetached s fid) =
              emitted s @ map (\<lambda>g. PageFrameDetached (frameRef (frameOf g))) (postorder n))
       \<and> (\<forall>g \<in> set (nodes n). \<forall>world.
            contextOf (frameDetached s fid) (frameOf g) world \<noteq> Pending
            \<and> (contextOf s (frameOf g) world = Pending \<longrightarrow>
                 contextOf (frameDetached s fid) (frameOf g) world
                   = Rejected (Error ''Frame was detached''))
            \<and> (\<forall>c. activeContext (contextData (frameOf g) world) = Some c \<longrightarrow>
                 (c, ''Frame was detached'') \<in> set (contextDestroyedCalls (frameDetached s fid))))"
proof -
  define s' where "s' = fold (\<lambda>g. detachFrame (frameOf g)) (postorder n) s"
  have eq: "frameDetached s fid =
           onTree (\<lambda>t. recalculateNetworkIdle None (cutNode (frameRef (frameOf n)) t)) s'"
    using assms by (simp add: frameDetached_def removeFramesRecursively_postorder s'_def)
  have facts: "settles s s'"
      "\<forall>g \<in> set (nodes n). \<forall>world. promises s' (contextPromise (contextData (frameOf g) world)) \<noteq> None"
      "\<forall>g \<in> set (nodes n). \<forall>world c. activeContext (contextData (frameOf g) world) = Some c \<longrightarrow>
         (c, kFrameDetached) \<in> set (contextDestroyedCalls s')"
    using fold_detach_settles[of s "postorder n"] by (simp_all add: s'_def set_postorder)
  have a: "\<forall>g \<in> set (nodes n). frames (frameDetached s fid) (frameId (frameOf g)) = None"
    by (auto simp: eq s'_def fold_detach_frames set_postorder)
  have b: "\<not> pageClosed s \<longrightarrow>
            emitted (frameDetached s fid) =
              emitted s @ map (\<lambda>g. PageFrameDetached (frameRef (frameOf g))) (postorder n)"
    by (simp add: eq s'_def fold_detach_emitted)
  have c: "contextOf (frameDetached s fid) (frameOf g) world \<noteq> Pending
            \<and> (contextOf s (frameOf g) world = Pending \<longrightarrow>
                 contextOf (frameDetached s fid) (frameOf g) world
                   = Rejected (Error ''Frame was detached''))
            \<and> (\<forall>c. activeContext (contextData (frameOf g) world) = Some c \<longrightarrow>
                 (c, ''Frame was detached'') \<in> set (contextDestroyedCalls (frameDetached s fid)))"
    if g: "g \<in> set (nodes n)" for g world
  proof -
    let ?p = "contextPromise (contextData (frameOf g) world)"
    have settled: "promises s' ?p \<noteq> None" using facts(2) g by blast
    have pend: "promises s' ?p = Some (destroyedReason kFrameDetached)" if "promises s ?p = None"
    proof -
      from facts(1) that have "promises s' ?p = None \<or> promises s' ?p = Some (destroyedReason kFrameDetached)"
        unfolding settles_def by blast
      with settled show ?thesis by auto
    qed
    have calls: "\<forall>c. activeContext (contextData (frameOf g) world) = Some c \<longrightarrow>
                 (c, kFrameDetached) \<in> set (contextDestroyedCalls s')"
      using facts(3) g by blast
    have p1: "contextOf (frameDetached s fid) (frameOf g) world \<noteq> Pending"
      using settled by (auto simp: contextOf_def eq split: option.splits contextOrReason.splits)
    have p2: "contextOf s (frameOf g) world = Pending \<longrightarrow>
                 contextOf (frameDetached s fid) (frameOf g) world
                   = Rejected (Error ''Frame was detached'')"
    proof
      assume "contextOf s (frameOf g) world = Pending"
      then have "promises s ?p = None"
        by (auto simp: contextOf_def split: option.splits contextOrReason.splits)
      then show "contextOf (frameDetached s fid) (frameOf g) world = Rejected (Error ''Frame was detached'')"
        using pend by (simp add: contextOf_def eq kFrameDetached_def)
    qed
    show ?thesis using p1 p2 calls by (simp add: eq kFrameDetached_def)
  qed
  show ?thesis using eq a b c unfolding s'_def by blast
qed

lemma contextExample_subtree:
  "map_option (map (\<lambda>g. frameRef (frameOf g)) \<circ> postorder) (frameNode contextExample ''M'')
     = Some [5, 0]"
  by code_simp

lemma contextExample_open: "\<not> pageClosed contextExample"
  by code_simp

lemma contextExample_contexts:
  "map (\<lambda>f. (frameId f, contextOf contextExample f main, contextOf contextExample f utility))
     (liveFrames contextExample)
     = [(''M'', Pending, Pending), (''C'', Resolved 70, Pending)]
   \<and> map (\<lambda>f. (frameId f, contextOf (frameDetached contextExample ''M'') f main,
                  contextOf (frameDetached contextExample ''M'') f utility))
     (liveFrames contextExample)
     = [(''M'', Rejected (Error ''Frame was detached''), Rejected (Error ''Frame was detached'')),
        (''C'', Resolved 70, Rejected (Error ''Frame was detached''))]
   \<and> contextDestroyedCalls (frameDetached contextExample ''M'') = [(70, ''Frame was detached'')]
   \<and> frames (frameDetached contextExample ''M'') ''M'' = None
   \<and> frames (frameDetached contextExample ''M'') ''C'' = None"
  by code_simp

theorem C9_frame_detached_witness:
  "\<not> pageClosed contextExample
   \<and> emitted (frameDetached contextExample ''M'')
       = emitted contextExample @ [PageFrameDetached 5, PageFrameDetached 0]
   \<and> map (\<lambda>f. (frameId f, contextOf (frameDetached contextExample ''M'') f main,
                  contextOf (frameDetached contextExample ''M'') f utility))
     (liveFrames contextExample)
     = [(''M'', Rejected (Error ''Frame was detached''), Rejected (Error ''Frame was detached'')),
        (''C'', Resolved 70, Rejected (Error ''Frame was detached''))]
   \<and> frames (frameDetached contextExample ''M'') ''M'' = None
   \<and> frames (frameDetached contextExample ''M'') ''C'' = None"
proof -
  from contextExample_subtree obtain n where n: "frameNode contextExample ''M'' = Some n"
      "map (\<lambda>g. frameRef (frameOf g)) (postorder n) = [5, 0]"
    by auto
  have "map (\<lambda>g. PageFrameDetached (frameRef (frameOf g))) (postorder n)
          = map PageFrameDetached (map (\<lambda>g. frameRef (frameOf g)) (postorder n))"
    by (simp add: comp_def)
  then have order: "map (\<lambda>g. PageFrameDetached (frameRef (frameOf g))) (postorder n)
          = [PageFrameDetached 5, PageFrameDetached 0]"
    using n(2) by simp
  have "\<not> pageClosed contextExample \<longrightarrow>
          emitted (frameDetached contextExample ''M'') =
            emitted contextExample @ map (\<lambda>g. PageFrameDetached (frameRef (frameOf g))) (postorder n)"
    using C9_frame_detached[OF n(1)] by (elim conjE)
  then show ?thesis
    using order contextExample_open contextExample_contexts by simp
qed


section \<open>The retry loop\<close>

lemma nonRetriable_iff:
  "isNonRetriableError k detached e \<longleftrightarrow>
     isAbortError k e \<or> isJavaScriptErrorInEvaluate k e \<or> isSessionClosedError k e
     \<or> isNonRecoverableDOMError k e \<or> isInvalidSelectorError k e \<or> detached"
  by (auto simp: isNonRetriableError_def)





lemma zero_schedule_never_settles:
  "retryLoop fuel k sc [0] perpetual i now st = None"
  by (induction fuel arbitrary: i) (simp_all add: Let_def delayAt_def perpetual_def)





text \<open>
  C6. A step error raised inside the retry loop, after the wait before the attempt has
  passed: if it is an abort error, a JavaScript evaluation fault, a closed-session error, a
  non-recoverable DOM error or an invalid-selector error, or if the frame is detached when
  the error is caught, the loop rejects with that very error at that moment; every other
  error is swallowed and the loop goes on with the next attempt, whose step is invoked as
  soon as its wait has passed.
\<close>

theorem C6_step_errors:
  assumes wait: "(if delayAt timeouts i \<noteq> 0 then race (earliestClosure sc) now (delayAt timeouts i)
                  else Inr now) = Inr t1"
    and thrown: "action i t1 st = (Throws e, t2, st')"
  shows "retryLoop (Suc fuel) k sc timeouts action i now st =
           (if isAbortError k e \<or> isJavaScriptErrorInEvaluate k e \<or> isSessionClosedError k e
               \<or> isNonRecoverableDOMError k e \<or> isInvalidSelectorError k e \<or> isDetached sc t2
            then Some (Rejected e, t2, st')
            else retryLoop fuel k sc timeouts action (Suc i) t2 st')
       \<and> (\<not> (isAbortError k e \<or> isJavaScriptErrorInEvaluate k e \<or> isSessionClosedError k e
               \<or> isNonRecoverableDOMError k e \<or> isInvalidSelectorError k e \<or> isDetached sc t2) \<longrightarrow>
            (if delayAt timeouts (Suc i) \<noteq> 0
             then race (earliestClosure sc) t2 (delayAt timeouts (Suc i)) else Inr t2) = Inr t3 \<longrightarrow>
            retryLoop (Suc (Suc fuel)) k sc timeouts action i now st =
              (case action (Suc i) t3 st' of
                 (Returns result, t4, st'') \<Rightarrow> Some (Resolved result, t4, st'')
               | (continuePolling, t4, st'') \<Rightarrow>
                   retryLoop fuel k sc timeouts action (Suc (Suc i)) t4 st''
               | (Throws e', t4, st'') \<Rightarrow>
                   if isNonRetriableError k (isDetached sc t4) e' then Some (Rejected e', t4, st'')
                   else retryLoop fuel k sc timeouts action (Suc (Suc i)) t4 st''))"
proof -
  have one: "retryLoop (Suc f) k sc timeouts action i now st =
           (if isNonRetriableError k (isDetached sc t2) e then Some (Rejected e, t2, st')
            else retryLoop f k sc timeouts action (Suc i) t2 st')" for f
    using wait thrown by (simp add: Let_def)
  have two: "retryLoop (Suc fuel) k sc timeouts action (Suc i) t2 st' =
              (case action (Suc i) t3 st' of
                 (Returns result, t4, st'') \<Rightarrow> Some (Resolved result, t4, st'')
               | (continuePolling, t4, st'') \<Rightarrow>
                   retryLoop fuel k sc timeouts action (Suc (Suc i)) t4 st''
               | (Throws e', t4, st'') \<Rightarrow>
                   if isNonRetriableError k (isDetached sc t4) e' then Some (Rejected e', t4, st'')
                   else retryLoop fuel k sc timeouts action (Suc (Suc i)) t4 st'')"
    if "(if delayAt timeouts (Suc i) \<noteq> 0
             then race (earliestClosure sc) t2 (delayAt timeouts (Suc i)) else Inr t2) = Inr t3"
    using that by (simp add: Let_def)
  show ?thesis
    using one[of fuel] one[of "Suc fuel"] two by (simp add: nonRetriable_iff)
qed


theorem C6_step_errors_witness:
  "retryWithProgressAndTimeouts 5 onlyInvalidSelector neverClosed [20] transientThenInvalid 0 ()
     = Some (Rejected (Error ''Unexpected token while parsing selector''), 20, ())
   \<and> retryLoop 5 onlyInvalidSelector neverClosed [0, 20] transientThenInvalid 0 0 ()
     = retryLoop 4 onlyInvalidSelector neverClosed [0, 20] transientThenInvalid 1 0 ()
   \<and> retryLoop 4 onlyInvalidSelector neverClosed [0, 20] transientThenInvalid 1 0 ()
     = Some (Rejected (Error ''Unexpected token while parsing selector''), 20, ())"
proof -
  have w0: "(if delayAt [0, 20] 0 \<noteq> 0 then race (earliestClosure neverClosed) 0 (delayAt [0, 20] 0)
             else Inr 0) = Inr 0"
    by (simp add: delayAt_def)
  have a0: "transientThenInvalid 0 0 () = (Throws (Error ''Element is not attached to the DOM''), 0, ())"
    by (simp add: transientThenInvalid_def)
  have w1: "(if delayAt [0, 20] 1 \<noteq> 0 then race (earliestClosure neverClosed) 0 (delayAt [0, 20] 1)
             else Inr 0) = Inr 20"
    by (simp add: delayAt_def race_def earliestClosure_def earlier_def neverClosed_def)
  have a1: "transientThenInvalid 1 20 () = (Throws (Error ''Unexpected token while parsing selector''), 20, ())"
    by (simp add: transientThenInvalid_def)
  have first: "retryLoop 5 onlyInvalidSelector neverClosed [0, 20] transientThenInvalid 0 0 ()
     = retryLoop 4 onlyInvalidSelector neverClosed [0, 20] transientThenInvalid 1 0 ()"
    using w0 a0 C6_step_errors[of "[0, 20]" 0 neverClosed 0 0 transientThenInvalid "()"
        "Error ''Element is not attached to the DOM''" 0 "()" 4 onlyInvalidSelector 0]
    by (simp add: onlyInvalidSelector_def isDetached_def neverClosed_def)
  have second: "retryLoop 4 onlyInvalidSelector neverClosed [0, 20] transientThenInvalid 1 0 ()
     = Some (Rejected (Error ''Unexpected token while parsing selector''), 20, ())"
    using w1 a1 C6_step_errors[of "[0, 20]" 1 neverClosed 0 20 transientThenInvalid "()"
        "Error ''Unexpected token while parsing selector''" 20 "()" 3 onlyInvalidSelector 0]
    by (simp add: onlyInvalidSelector_def isDetached_def neverClosed_def)
  show ?thesis
    using first second by (simp add: retryWithProgressAndTimeouts_def)
qed






section \<open>The assertion engine\<close>









text \<open>
  C8. When the first pre-checks of \<^verbatim>\<open>expect\<close> complete and the one-shot evaluation yields a
  \<open>matches\<close> that differs from \<open>isNot\<close>, \<^verbatim>\<open>expect\<close> resolves with the result of the one-shot
  evaluation as soon as it ends, \<open>matches\<close> being the negation of \<open>isNot\<close>: whatever the scopes
  do, the progress of the caller included, and without any iteration of the retry loop.
\<close>

theorem C8_one_shot_match:
  assumes pre: "preChecks w 0 = (None, d0)"
    and ev: "evaluate w 0 = (evalYields m rcv missingReceived, d)"
    and ok: "m \<noteq> isNot"
  shows "expect fuel k sc w isNot now
           = Some (Resolved \<lparr>matches = m, received = rcv, timedOut = False\<rparr>, now + d0 + d)"
  using assms
  by (simp add: expect_def expectAttempts_def performActionPreChecks_def expectInternal_def)

theorem C8_one_shot_match_witness:
  "expect 0 onlyInvalidSelector (timesOutAt 1) visiblePage False 0
     = Some (Resolved \<lparr>matches = True, received = Some ''visible'', timedOut = False\<rparr>, 2)"
  using C8_one_shot_match[of visiblePage 0 True "Some ''visible''" False 2 False 0
          onlyInvalidSelector "timesOutAt 1" 0]
  by (simp add: visiblePage_def)

text \<open>
  With \<open>isNot\<close> set, a condition that already holds relative to \<open>isNot\<close> is an evaluation whose
  \<open>matches\<close> is false, and that is the \<open>matches\<close> of the result. And the pre-checks come before
  the one-shot evaluation and are given the progress of the caller: when they throw its
  \<^verbatim>\<open>TimeoutError\<close> after 1ms, \<^verbatim>\<open>expect\<close> reports a timed-out mismatch without evaluating the
  condition, although the element is visible.
\<close>

theorem C8_one_shot_match_counterexample:
  "expect 20 onlyInvalidSelector (timesOutAt 1) loadingPage True 0
     = Some (Resolved \<lparr>matches = False, received = Some ''Loading'', timedOut = False\<rparr>, 3)
   \<and> expect 20 onlyInvalidSelector (timesOutAt 1) busyPage False 0
     = Some (Resolved \<lparr>matches = False, received = None, timedOut = True\<rparr>, 1)"
  by code_simp

end
